theory Spec2Isabelle
  imports
    Complex_Main
    "HOL-Library.AList"
    "HOL-Library.Char_ord"
    "HOL-Library.List_Lexorder"
    "HOL-Library.Product_Lexorder"
begin

section \<open>Common data: paths, exceptions, strings\<close>

text \<open>
  A \<open>pathlib.Path\<close> is the list of its components; \<open>p / name\<close> appends one component.
  File names and session names are Python \<open>str\<close> values, modelled as \<open>string\<close>;
  the order on them (\<open>List_Lexorder\<close> over \<open>Char_ord\<close>) is the lexicographic order
  on character codes, as Python's \<open><\<close> on \<open>str\<close>.
  Times and ages (\<open>float\<close> in the source) are modelled as exact reals.
\<close>

type_synonym path = "string list"

definition pjoin :: "path \<Rightarrow> string \<Rightarrow> path" where
  "pjoin p name = p @ [name]"

text \<open>
  The exceptions the code meets. \<open>OSError\<close> carries its \<open>errno\<close>; an \<open>OSError\<close> whose
  errno is \<open>ENOENT\<close> is Python's \<open>FileNotFoundError\<close>. \<open>OtherException\<close> stands for any
  other subclass of \<open>Exception\<close> (an upload failure of the SDK, for instance).
  \<open>CancelledError\<close> is what a cancelled task receives at an \<open>await\<close>; it derives from
  \<open>BaseException\<close> only, so \<open>except Exception\<close> does not catch it.
\<close>

datatype py_exc =
    OSError int
  | ValueError string
  | TypeError
  | HTTPException int string
  | OtherException string
  | CancelledError

fun is_Exception :: "py_exc \<Rightarrow> bool" where
  "is_Exception CancelledError = False"
| "is_Exception _ = True"

abbreviation ENOENT :: int where "ENOENT \<equiv> 2"
abbreviation ESTALE :: int where "ESTALE \<equiv> 116"

text \<open>
  \<open>str.lower()\<close> and \<open>str.strip()\<close> belong to the Python library and follow the Unicode
  tables; the model takes them as parameters.
\<close>

record pylib =
  str_lower :: "string \<Rightarrow> string"
  str_strip :: "string \<Rightarrow> string"

text \<open>
  What the two compute on strings of ASCII characters: \<open>A\<close> to \<open>Z\<close> are mapped to
  \<open>a\<close> to \<open>z\<close>, and the ASCII white space (tab, line feed, vertical tab, form feed,
  carriage return, the four separators \<open>0x1C\<close> to \<open>0x1F\<close> and the space) is removed
  from both ends.
\<close>

definition is_ascii :: "string \<Rightarrow> bool" where
  "is_ascii s = list_all (\<lambda>c. \<not> digit7 c) s"

definition ascii_lower_char :: "char \<Rightarrow> char" where
  "ascii_lower_char c =
     (case map_of (zip ''ABCDEFGHIJKLMNOPQRSTUVWXYZ'' ''abcdefghijklmnopqrstuvwxyz'') c of
        Some l \<Rightarrow> l
      | None \<Rightarrow> c)"

definition ascii_lower :: "string \<Rightarrow> string" where
  "ascii_lower s = map ascii_lower_char s"

definition ascii_is_space :: "char \<Rightarrow> bool" where
  "ascii_is_space c =
     (c \<in> set [CHR 0x09, CHR 0x0A, CHR 0x0B, CHR 0x0C, CHR 0x0D,
                CHR 0x1C, CHR 0x1D, CHR 0x1E, CHR 0x1F, CHR '' ''])"

definition ascii_strip :: "string \<Rightarrow> string" where
  "ascii_strip s = rev (dropWhile ascii_is_space (rev (dropWhile ascii_is_space s)))"

definition ascii_lib :: pylib where
  "ascii_lib = \<lparr>str_lower = ascii_lower, str_strip = ascii_strip\<rparr>"



definition endswith :: "string \<Rightarrow> string \<Rightarrow> bool" where
  "endswith s sfx = (length sfx \<le> length s \<and> drop (length s - length sfx) s = sfx)"


text \<open>\<open>s.rfind(c)\<close>: the last index of \<open>c\<close>, or \<open>-1\<close>.\<close>

definition rfind :: "string \<Rightarrow> char \<Rightarrow> int" where
  "rfind s c =
     (if c \<in> set s
      then int (length s) - 1 - int (length (takeWhile (\<lambda>x. x \<noteq> c) (rev s)))
      else - 1)"

text \<open>
  \<open>Path(name).suffix\<close> for a single component, as pathlib computes it:
  \<^verbatim>\<open>i = name.rfind('.'); return name[i:] if 0 < i < len(name) - 1 else ''\<close>.
\<close>

definition path_suffix :: "string \<Rightarrow> string" where
  "path_suffix name =
     (let i = rfind name (CHR ''.'')
      in if 0 < i \<and> i < int (length name) - 1 then drop (nat i) name else [])"

section \<open>config.py\<close>

record Settings =
  nfs_incoming_dir :: path
  nfs_processing_root :: path
  local_staging_root :: path
  poll_interval_s :: real
  min_file_age_s :: real
  file_extensions :: "string set"
  max_queue_size :: int
  azure_max_concurrency :: int




section \<open>models.py, session.py, telemetry.py and the asyncio queue\<close>

record WorkItem =
  source_path :: path
  wi_session_name :: string
  wi_date_prefix :: string
  filename :: string
  from_recovery :: bool

record SessionState =
  active :: bool
  session_name :: "string option"
  date_prefix :: "string option"
  processed_ok :: int
  processed_err :: int
  last_error :: "string option"

definition SessionState_init :: SessionState where
  "SessionState_init =
     \<lparr>active = False, session_name = None, date_prefix = None,
      processed_ok = 0, processed_err = 0, last_error = None\<rparr>"

text \<open>
  \<open>asyncio.Queue\<close>: the FIFO of items and its counter of unfinished tasks. main.py
  creates the queue with \<open>maxsize = settings.max_queue_size\<close>; a \<open>maxsize\<close> of zero or
  less means no bound. \<open>put\<close> suspends while the queue is full and drops nothing;
  \<open>queue_put\<close> is what a \<open>put\<close> that goes through does: it appends and counts one more
  unfinished task. \<open>get\<close> suspends on the empty queue (\<open>None\<close> here); \<open>task_done\<close>
  raises \<open>ValueError\<close> when called more often than items were put.
\<close>

record Queue =
  items :: "WorkItem list"
  unfinished_tasks :: int

definition Queue_init :: Queue where
  "Queue_init = \<lparr>items = [], unfinished_tasks = 0\<rparr>"

definition queue_full :: "int \<Rightarrow> Queue \<Rightarrow> bool" where
  "queue_full maxsize q = (0 < maxsize \<and> maxsize \<le> int (length (items q)))"

definition queue_put :: "Queue \<Rightarrow> WorkItem \<Rightarrow> Queue" where
  "queue_put q x = q\<lparr>items := items q @ [x], unfinished_tasks := unfinished_tasks q + 1\<rparr>"

definition queue_get :: "Queue \<Rightarrow> (WorkItem \<times> Queue) option" where
  "queue_get q = (case items q of [] \<Rightarrow> None | x # xs \<Rightarrow> Some (x, q\<lparr>items := xs\<rparr>))"

definition queue_task_done :: "Queue \<Rightarrow> py_exc + Queue" where
  "queue_task_done q =
     (if unfinished_tasks q \<le> 0 then Inl (ValueError ''task_done() called too many times'')
      else Inr (q\<lparr>unfinished_tasks := unfinished_tasks q - 1\<rparr>))"

text \<open>The instruments of telemetry.py that the pipeline adds to.\<close>

record Telemetry =
  queue_depth :: int
  files_processed :: int
  files_failed :: int

definition Telemetry_init :: Telemetry where
  "Telemetry_init = \<lparr>queue_depth = 0, files_processed = 0, files_failed = 0\<rparr>"

text \<open>The state shared by watcher, recovery, workers and the control API.\<close>

record AppState =
  session_state :: SessionState
  queue :: Queue
  telemetry :: Telemetry

definition AppState_init :: AppState where
  "AppState_init =
     \<lparr>session_state = SessionState_init, queue = Queue_init, telemetry = Telemetry_init\<rparr>"

section \<open>watcher.py\<close>

text \<open>
  \<open>ScanMap\<close> is a Python dict \<open>name -> (size, mtime)\<close>: an association list in
  insertion order; \<open>AList.update\<close> overwrites in place or appends, as \<open>d[k] = v\<close> does.
\<close>

type_synonym ScanMap = "(string \<times> (nat \<times> real)) list"

text \<open>
  One entry of \<open>os.scandir\<close>: its name, the answer of \<open>is_file(follow_symlinks=False)\<close>
  (true for a regular file that is not a symlink) and the outcome of
  \<open>stat(follow_symlinks=False)\<close>, either an exception or \<open>(st_size, st_mtime)\<close>.
\<close>

record dirent =
  d_name :: string
  d_is_file :: bool
  d_stat :: "py_exc + (nat \<times> real)"

text \<open>\<open>allowed_extensions = settings.file_extensions or None\<close>.\<close>

definition allowed_extensions_of :: "Settings \<Rightarrow> string set option" where
  "allowed_extensions_of settings =
     (if file_extensions settings = {} then None else Some (file_extensions settings))"

text \<open>
  The second \<open>continue\<close> of the scan loop:
  \<open>allowed_extensions and Path(entry.name).suffix.lower() not in allowed_extensions\<close>.
\<close>

definition ext_rejected :: "pylib \<Rightarrow> string set option \<Rightarrow> string \<Rightarrow> bool" where
  "ext_rejected lib allowed name =
     (case allowed of
        None \<Rightarrow> False
      | Some a \<Rightarrow> a \<noteq> {} \<and> str_lower lib (path_suffix name) \<notin> a)"

text \<open>An entry is eligible lib when it passes both filters of the scan loop.\<close>

definition eligible :: "pylib \<Rightarrow> string set option \<Rightarrow> dirent \<Rightarrow> bool" where
  "eligible lib allowed e = (d_is_file e \<and> \<not> ext_rejected lib allowed (d_name e))"

text \<open>
  The \<open>for entry in entries\<close> loop of \<open>_scan\<close>. It returns the dict built so far and
  the exception that ended the loop, if any.
\<close>

fun scan_entries ::
  "pylib \<Rightarrow> string set option \<Rightarrow> dirent list \<Rightarrow> ScanMap \<Rightarrow> ScanMap \<times> py_exc option" where
  "scan_entries lib allowed [] result = (result, None)"
| "scan_entries lib allowed (e # es) result =
     (if \<not> d_is_file e then scan_entries lib allowed es result
      else if ext_rejected lib allowed (d_name e) then scan_entries lib allowed es result
      else (case d_stat e of
              Inr st \<Rightarrow> scan_entries lib allowed es (AList.update (d_name e) st result)
            | Inl (OSError eno) \<Rightarrow>
                if eno = ENOENT \<or> eno = ESTALE then scan_entries lib allowed es result
                else (result, Some (OSError eno))
            | Inl exc \<Rightarrow> (result, Some exc)))"

text \<open>
  \<open>_scan_directory\<close>, given what \<open>os.scandir(path)\<close> yields: an exception on opening
  the directory, or its entries. \<open>FileNotFoundError\<close> is swallowed and the dict built
  so far is returned; any other exception propagates.
\<close>

definition scan_directory ::
  "pylib \<Rightarrow> string set option \<Rightarrow> py_exc + dirent list \<Rightarrow> py_exc + ScanMap" where
  "scan_directory lib allowed listing =
     (case listing of
        Inl (OSError eno) \<Rightarrow> if eno = ENOENT then Inr [] else Inl (OSError eno)
      | Inl exc \<Rightarrow> Inl exc
      | Inr entries \<Rightarrow>
          (case scan_entries lib allowed entries [] of
             (result, None) \<Rightarrow> Inr result
           | (result, Some (OSError eno)) \<Rightarrow>
               if eno = ENOENT then Inr result else Inl (OSError eno)
           | (result, Some exc) \<Rightarrow> Inl exc))"

record Watcher =
  previous :: ScanMap
  pending :: "string set"
  backoff :: real

definition Watcher_init :: Watcher where
  "Watcher_init = \<lparr>previous = [], pending = {}, backoff = 0\<rparr>"

text \<open>\<open>pending -= pending - set(current.keys())\<close>.\<close>

definition prune_pending :: "string set \<Rightarrow> ScanMap \<Rightarrow> string set" where
  "prune_pending pending_set current = pending_set - (pending_set - set (map fst current))"

text \<open>What \<open>pending &= set(current.keys())\<close> would compute.\<close>

definition intersect_pending :: "string set \<Rightarrow> ScanMap \<Rightarrow> string set" where
  "intersect_pending pending_set current = pending_set \<inter> set (map fst current)"

definition mk_item :: "path \<Rightarrow> string \<Rightarrow> string \<Rightarrow> string \<Rightarrow> WorkItem" where
  "mk_item incoming_dir sn dp fname =
     \<lparr>source_path = pjoin incoming_dir fname, wi_session_name = sn, wi_date_prefix = dp,
      filename = fname, from_recovery = False\<rparr>"

text \<open>
  The \<open>for filename, (size, mtime) in current.items()\<close> loop, threading the pending
  set, the queue and the telemetry. The workers run beside the watcher and free slots
  of a full queue, so a \<open>put\<close> of the watcher that has to wait goes through later; the
  loop is modelled with its puts gone through.
\<close>

fun emit_loop ::
  "Settings \<Rightarrow> path \<Rightarrow> string \<Rightarrow> string \<Rightarrow> real \<Rightarrow> ScanMap \<Rightarrow> ScanMap \<Rightarrow>
   string set \<times> Queue \<times> Telemetry \<Rightarrow> string set \<times> Queue \<times> Telemetry" where
  "emit_loop settings incoming_dir sn dp now prev [] st = st"
| "emit_loop settings incoming_dir sn dp now prev ((fname, (sz, mtime)) # rest) (pend, q, tel) =
     (if fname \<in> pend then emit_loop settings incoming_dir sn dp now prev rest (pend, q, tel)
      else (case map_of prev fname of
              None \<Rightarrow> emit_loop settings incoming_dir sn dp now prev rest (pend, q, tel)
            | Some (prev_size, prev_mtime) \<Rightarrow>
                if sz \<noteq> prev_size \<or> mtime \<noteq> prev_mtime
                then emit_loop settings incoming_dir sn dp now prev rest (pend, q, tel)
                else if now - mtime < min_file_age_s settings
                then emit_loop settings incoming_dir sn dp now prev rest (pend, q, tel)
                else emit_loop settings incoming_dir sn dp now prev rest
                       (insert fname pend,
                        queue_put q (mk_item incoming_dir sn dp fname),
                        tel\<lparr>queue_depth := queue_depth tel + 1\<rparr>)))"

text \<open>
  One iteration of \<open>while True\<close> in \<open>watcher_loop\<close>, after the sleep. \<open>scandir\<close> is the
  file system as \<open>os.scandir\<close> shows it and \<open>now\<close> is \<open>time.time()\<close>. \<open>Inl\<close> is an
  exception that leaves the loop; it is raised before anything shared is changed.
  A missing \<open>session_name\<close> makes \<open>nfs_incoming_dir / None\<close> raise \<open>TypeError\<close>. A
  missing \<open>date_prefix\<close> beside a present \<open>session_name\<close> is a state that no operation
  produces (both are always assigned together); the model raises there as well.
\<close>

definition watcher_cycle ::
  "pylib \<Rightarrow> Settings \<Rightarrow> (path \<Rightarrow> py_exc + dirent list) \<Rightarrow> real \<Rightarrow> Watcher \<times> AppState \<Rightarrow>
   py_exc + (Watcher \<times> AppState)" where
  "watcher_cycle lib settings scandir now st =
     (case st of (w, app) \<Rightarrow>
      if \<not> active (session_state app) then Inr (w\<lparr>previous := [], pending := {}\<rparr>, app)
      else (case (session_name (session_state app), date_prefix (session_state app)) of
              (Some sn, Some dp) \<Rightarrow>
                (let incoming_dir = pjoin (nfs_incoming_dir settings) sn in
                 case scan_directory lib (allowed_extensions_of settings) (scandir incoming_dir) of
                   Inl (OSError eno) \<Rightarrow>
                     if eno = ENOENT \<or> eno = ESTALE then Inr (w, app)
                     else Inr (w\<lparr>backoff :=
                                  min (if backoff w * 2 = 0 then 1 else backoff w * 2) 60\<rparr>, app)
                 | Inl exc \<Rightarrow> Inl exc
                 | Inr current \<Rightarrow>
                     (case emit_loop settings incoming_dir sn dp now (previous w) current
                             (prune_pending (pending w) current, queue app, telemetry app) of
                        (pend', q', tel') \<Rightarrow>
                          Inr (\<lparr>previous = current, pending = pend', backoff = 0\<rparr>,
                               app\<lparr>queue := q', telemetry := tel'\<rparr>)))
            | _ \<Rightarrow> Inl TypeError))"

section \<open>Effects on the file system and the blob store\<close>

text \<open>
  The blocking calls of session.py and worker.py. The world answers each call with
  the exception it raises, or \<open>None\<close> when it succeeds; the calls made are returned
  as a trace, in order.
\<close>

datatype op =
    Rename path path
  | Makedirs path
  | CopyFsync path path
  | Stat path
  | Upload path string int
  | Unlink path

type_synonym world = "op \<Rightarrow> py_exc option"

text \<open>Calls made one after the other; the first exception ends the sequence.\<close>

fun perform :: "world \<Rightarrow> op list \<Rightarrow> op list \<times> py_exc option" where
  "perform io [] = ([], None)"
| "perform io (x # xs) =
     (case io x of
        Some e \<Rightarrow> ([x], Some e)
      | None \<Rightarrow> (case perform io xs of (tr, r) \<Rightarrow> (x # tr, r)))"

section \<open>session.py and the start/stop endpoints of main.py\<close>

text \<open>\<open>uuid\<close> is the text of \<open>uuid7()\<close>.\<close>

definition generate_session_name :: "string \<Rightarrow> string" where
  "generate_session_name uuid = ''00-session-'' @ uuid"

text \<open>
  \<open>start_session\<close>. \<open>today\<close> is \<open>datetime.now(timezone.utc).strftime("%Y%m%d")\<close>.
  The result is the outcome (the exception raised or the returned pair), the session
  state afterwards and the calls made. \<open>session_name or generate_session_name()\<close>
  takes the generated name also for the empty string.
\<close>

definition start_session ::
  "Settings \<Rightarrow> world \<Rightarrow> string \<Rightarrow> string \<Rightarrow> string option \<Rightarrow> SessionState \<Rightarrow>
   (py_exc + (string \<times> string)) \<times> SessionState \<times> op list" where
  "start_session settings io uuid today name_arg s =
     (if active s then (Inl (ValueError ''Session already active''), s, [])
      else
        (let name = (case name_arg of
                       None \<Rightarrow> generate_session_name uuid
                     | Some n \<Rightarrow> if n = [] then generate_session_name uuid else n);
             dp = today;
             incoming_dir = pjoin (nfs_incoming_dir settings) name;
             processing_dir = pjoin (pjoin (nfs_processing_root settings) dp) name;
             staging_dir = pjoin (pjoin (local_staging_root settings) dp) name
         in case perform io [Makedirs incoming_dir, Makedirs processing_dir, Makedirs staging_dir] of
              (tr, Some e) \<Rightarrow> (Inl e, s, tr)
            | (tr, None) \<Rightarrow>
                (Inr (dp, name),
                 s\<lparr>active := True, session_name := Some name, date_prefix := Some dp\<rparr>,
                 tr)))"

text \<open>The name \<open>start_session\<close> settles on and the three directories it creates.\<close>

definition chosen_name :: "string \<Rightarrow> string option \<Rightarrow> string" where
  "chosen_name uuid name_arg =
     (case name_arg of
        None \<Rightarrow> generate_session_name uuid
      | Some n \<Rightarrow> if n = [] then generate_session_name uuid else n)"

definition session_dirs :: "Settings \<Rightarrow> string \<Rightarrow> string \<Rightarrow> op list" where
  "session_dirs settings dp name =
     [Makedirs (pjoin (nfs_incoming_dir settings) name),
      Makedirs (pjoin (pjoin (nfs_processing_root settings) dp) name),
      Makedirs (pjoin (pjoin (local_staging_root settings) dp) name)]"

definition stop_session :: "SessionState \<Rightarrow> SessionState" where
  "stop_session s = s\<lparr>active := False\<rparr>"

text \<open>The invariant of \<open>SessionState\<close>: an active session has both names.\<close>

definition session_invariant :: "SessionState \<Rightarrow> bool" where
  "session_invariant s = (active s \<longrightarrow> session_name s \<noteq> None \<and> date_prefix s \<noteq> None)"

record WatchStartResponse =
  resp_date_prefix :: string
  resp_session_name :: string
  encoded_session :: string

text \<open>\<open>POST /v1/watch/start\<close>, after the request body has been validated.\<close>

definition watch_start ::
  "Settings \<Rightarrow> world \<Rightarrow> string \<Rightarrow> string \<Rightarrow> string option \<Rightarrow> SessionState \<Rightarrow>
   (py_exc + WatchStartResponse) \<times> SessionState \<times> op list" where
  "watch_start settings io uuid today body_session_name s =
     (if active s then (Inl (HTTPException 409 ''Session already active''), s, [])
      else (case start_session settings io uuid today body_session_name s of
              (Inl e, s', tr) \<Rightarrow> (Inl e, s', tr)
            | (Inr (dp, name), s', tr) \<Rightarrow>
                (Inr \<lparr>resp_date_prefix = dp, resp_session_name = name, encoded_session = name\<rparr>,
                 s', tr)))"

section \<open>recovery.py\<close>

text \<open>
  The tree under \<open>nfs_processing_root\<close> as \<open>is_dir()\<close> and \<open>is_file()\<close> report it:
  a file, a directory, or anything else. Listing a directory (\<open>iterdir\<close>, \<open>scandir\<close>)
  raises an exception or yields its named entries, in the order of the listing.
\<close>

datatype node = File | Dir "py_exc + (string \<times> node) list" | Other

definition recovered_item :: "path \<Rightarrow> string \<Rightarrow> string \<Rightarrow> string \<Rightarrow> WorkItem" where
  "recovered_item session_dir dp sn fname =
     \<lparr>source_path = pjoin session_dir fname, wi_session_name = sn, wi_date_prefix = dp,
      filename = fname, from_recovery = True\<rparr>"

text \<open>\<open>for entry in os.scandir(session_dir)\<close>, given the entries.\<close>

fun scan_session_dir :: "path \<Rightarrow> string \<Rightarrow> string \<Rightarrow> (string \<times> node) list \<Rightarrow> WorkItem list" where
  "scan_session_dir session_dir dp sn [] = []"
| "scan_session_dir session_dir dp sn ((fname, nd) # rest) =
     (if nd \<noteq> File then scan_session_dir session_dir dp sn rest
      else if endswith fname ''.completed'' then scan_session_dir session_dir dp sn rest
      else recovered_item session_dir dp sn fname # scan_session_dir session_dir dp sn rest)"

text \<open>
  \<open>for session_dir in sorted(date_dir.iterdir())\<close>, given the sorted entries. A
  session directory that cannot be listed ends the scan with its exception.
\<close>

fun scan_date_dir :: "path \<Rightarrow> string \<Rightarrow> (string \<times> node) list \<Rightarrow> py_exc + WorkItem list" where
  "scan_date_dir date_dir dp [] = Inr []"
| "scan_date_dir date_dir dp ((sn, nd) # rest) =
     (case nd of
        Dir (Inl e) \<Rightarrow> Inl e
      | Dir (Inr files) \<Rightarrow>
          (case scan_date_dir date_dir dp rest of
             Inl e \<Rightarrow> Inl e
           | Inr later \<Rightarrow> Inr (scan_session_dir (pjoin date_dir sn) dp sn files @ later))
      | _ \<Rightarrow> scan_date_dir date_dir dp rest)"

text \<open>
  \<open>for date_dir in sorted(root.iterdir())\<close>, given the sorted entries. A date
  directory that cannot be listed ends the scan with its exception.
\<close>

fun scan_root :: "path \<Rightarrow> (string \<times> node) list \<Rightarrow> py_exc + WorkItem list" where
  "scan_root root_dir [] = Inr []"
| "scan_root root_dir ((dp, nd) # rest) =
     (case nd of
        Dir (Inl e) \<Rightarrow> Inl e
      | Dir (Inr sessions) \<Rightarrow>
          (case scan_date_dir (pjoin root_dir dp) dp (sort_key fst sessions) of
             Inl e \<Rightarrow> Inl e
           | Inr found \<Rightarrow>
               (case scan_root root_dir rest of
                  Inl e \<Rightarrow> Inl e
                | Inr later \<Rightarrow> Inr (found @ later)))
      | _ \<Rightarrow> scan_root root_dir rest)"

text \<open>
  \<open>_scan_processing\<close>; the argument is what is at \<open>root\<close>, \<open>None\<close> when
  \<open>root.exists()\<close> is false. \<open>iterdir\<close> on something that is not a directory raises
  \<open>NotADirectoryError\<close> (errno 20).
\<close>

definition scan_processing :: "path \<Rightarrow> node option \<Rightarrow> py_exc + WorkItem list" where
  "scan_processing root_dir tree =
     (case tree of
        None \<Rightarrow> Inr []
      | Some (Dir (Inl e)) \<Rightarrow> Inl e
      | Some (Dir (Inr dates)) \<Rightarrow> scan_root root_dir (sort_key fst dates)
      | Some _ \<Rightarrow> Inl (OSError 20))"

text \<open>
  \<open>max(items, key=...)\<close> on a non-empty list, the first element being the start:
  a later element replaces the current one only when its key is strictly greater.
\<close>

fun max_by :: "('a \<Rightarrow> 'k::linorder) \<Rightarrow> 'a \<Rightarrow> 'a list \<Rightarrow> 'a" where
  "max_by key cur [] = cur"
| "max_by key cur (x # xs) = max_by key (if key cur < key x then x else cur) xs"

definition session_key :: "WorkItem \<Rightarrow> string \<times> string" where
  "session_key i = (wi_date_prefix i, wi_session_name i)"

text \<open>
  \<open>for item in items: await queue.put(item); queue_depth.add(1)\<close>. main.py awaits
  \<open>recover\<close> before it creates the workers, so nothing takes items off the queue while
  this loop runs: a \<open>put\<close> that finds the queue full never goes through. The loop
  then stays at that item (\<open>False\<close>); otherwise it ends (\<open>True\<close>).
\<close>

fun enqueue_all :: "int \<Rightarrow> WorkItem list \<Rightarrow> Queue \<times> Telemetry \<Rightarrow> bool \<times> Queue \<times> Telemetry" where
  "enqueue_all maxsize [] (q, tel) = (True, q, tel)"
| "enqueue_all maxsize (item # rest) (q, tel) =
     (if queue_full maxsize q then (False, q, tel)
      else enqueue_all maxsize rest
             (queue_put q item, tel\<lparr>queue_depth := queue_depth tel + 1\<rparr>))"

text \<open>
  \<open>recover\<close>: how the call ends and the state it leaves. It returns the count, or it
  raises the exception of the scan (before anything is changed), or it never returns,
  suspended in \<open>queue.put\<close> on the full queue.
\<close>

datatype recover_outcome = Returned int | Raised py_exc | Suspended

definition recover :: "Settings \<Rightarrow> node option \<Rightarrow> AppState \<Rightarrow> recover_outcome \<times> AppState" where
  "recover settings tree app =
     (case scan_processing (nfs_processing_root settings) tree of
        Inl e \<Rightarrow> (Raised e, app)
      | Inr [] \<Rightarrow> (Returned 0, app)
      | Inr (first # others) \<Rightarrow>
          (let found = first # others;
               last_item = max_by session_key first others;
               ss = (session_state app)\<lparr>active := True,
                      session_name := Some (wi_session_name last_item),
                      date_prefix := Some (wi_date_prefix last_item)\<rparr>
           in case enqueue_all (max_queue_size settings) found (queue app, telemetry app) of
                (finished, q', tel') \<Rightarrow>
                  (if finished then Returned (int (length found)) else Suspended,
                   app\<lparr>session_state := ss, queue := q', telemetry := tel'\<rparr>)))"

text \<open>
  What the claims about recovery speak of. \<open>listing_of\<close> is the listing of the root,
  empty when there is none. A real directory has no two entries of one name. Every
  directory on the way can be listed. \<open>processing/dp/sn/fname\<close> resolves to a regular
  file whose name does not end in \<open>.completed\<close>.
\<close>

definition listing_of :: "node option \<Rightarrow> (string \<times> node) list" where
  "listing_of tree = (case tree of Some (Dir (Inr dates)) \<Rightarrow> dates | _ \<Rightarrow> [])"

definition distinct_names :: "(string \<times> node) list \<Rightarrow> bool" where
  "distinct_names dates =
     (distinct (map fst dates) \<and>
      (\<forall>(dp, nd) \<in> set dates.
         case nd of
           Dir (Inr sessions) \<Rightarrow>
             distinct (map fst sessions) \<and>
             (\<forall>(sn, nd') \<in> set sessions.
                case nd' of Dir (Inr files) \<Rightarrow> distinct (map fst files) | _ \<Rightarrow> True)
         | _ \<Rightarrow> True))"

definition listable :: "node option \<Rightarrow> bool" where
  "listable tree =
     (case tree of
        None \<Rightarrow> True
      | Some (Dir (Inr dates)) \<Rightarrow>
          (\<forall>(dp, nd) \<in> set dates.
             case nd of
               Dir (Inl e) \<Rightarrow> False
             | Dir (Inr sessions) \<Rightarrow>
                 (\<forall>(sn, nd') \<in> set sessions. case nd' of Dir (Inl e) \<Rightarrow> False | _ \<Rightarrow> True)
             | _ \<Rightarrow> True)
      | Some _ \<Rightarrow> False)"

definition recoverable :: "(string \<times> node) list \<Rightarrow> string \<Rightarrow> string \<Rightarrow> string \<Rightarrow> bool" where
  "recoverable dates dp sn fname =
     (case map_of dates dp of
        Some (Dir (Inr sessions)) \<Rightarrow>
          (case map_of sessions sn of
             Some (Dir (Inr files)) \<Rightarrow>
               map_of files fname = Some File \<and> \<not> endswith fname ''.completed''
           | _ \<Rightarrow> False)
      | _ \<Rightarrow> False)"

text \<open>The queue takes \<open>n\<close> more items without a \<open>put\<close> having to wait.\<close>

definition has_room :: "int \<Rightarrow> Queue \<Rightarrow> nat \<Rightarrow> bool" where
  "has_room maxsize q n = (maxsize \<le> 0 \<or> int (length (items q)) + int n \<le> maxsize)"

section \<open>worker.py\<close>

text \<open>
  \<open>_process_item\<close>: the calls made and the exception raised, \<open>None\<close> for a normal
  return. The histogram records and log lines are left out.
\<close>

definition process_item :: "Settings \<Rightarrow> world \<Rightarrow> WorkItem \<Rightarrow> op list \<times> py_exc option" where
  "process_item settings io item =
     (let processing_dir =
            pjoin (pjoin (nfs_processing_root settings) (wi_date_prefix item)) (wi_session_name item);
          processing_path = pjoin processing_dir (filename item);
          staging_dir =
            pjoin (pjoin (local_staging_root settings) (wi_date_prefix item)) (wi_session_name item);
          staging_path = pjoin staging_dir (filename item);
          blob_name = wi_date_prefix item @ ''/'' @ wi_session_name item @ ''/'' @ filename item;
          completed_path = pjoin processing_dir (filename item @ ''.completed'');
          claim = Rename (source_path item) processing_path;
          pipeline =
            (case perform io
                    [Makedirs staging_dir,
                     CopyFsync processing_path staging_path,
                     Stat staging_path,
                     Upload staging_path blob_name (azure_max_concurrency settings),
                     Rename processing_path completed_path] of
               (tr, Some e) \<Rightarrow> (tr, Some e)
             | (tr, None) \<Rightarrow>
                 (case io (Unlink staging_path) of
                    None \<Rightarrow> (tr @ [Unlink staging_path], None)
                  | Some (OSError eno) \<Rightarrow> (tr @ [Unlink staging_path], None)
                  | Some e \<Rightarrow> (tr @ [Unlink staging_path], Some e)))
      in if from_recovery item then pipeline
         else (case io claim of
                 None \<Rightarrow> (claim # fst pipeline, snd pipeline)
               | Some (OSError eno) \<Rightarrow>
                   if eno = ENOENT \<or> eno = ESTALE then ([claim], None)
                   else ([claim], Some (OSError eno))
               | Some e \<Rightarrow> ([claim], Some e)))"

text \<open>The path an item is claimed to: \<open>processing_root / date_prefix / session_name / filename\<close>.\<close>

definition processing_path_of :: "Settings \<Rightarrow> WorkItem \<Rightarrow> path" where
  "processing_path_of settings item =
     pjoin (pjoin (pjoin (nfs_processing_root settings) (wi_date_prefix item))
              (wi_session_name item))
       (filename item)"

text \<open>
  One iteration of the worker's \<open>while True\<close>. \<open>None\<close>: the worker is suspended in
  \<open>queue.get()\<close>. Otherwise the exception that leaves the loop (if any), the state
  afterwards and the calls made. \<open>format_exc\<close> is \<open>traceback.format_exc()\<close> for the
  exception being handled. In the \<open>finally\<close> block \<open>task_done\<close> comes first; were it
  to raise, the gauge would not be touched.
\<close>

definition worker_iteration ::
  "Settings \<Rightarrow> world \<Rightarrow> (py_exc \<Rightarrow> string) \<Rightarrow> AppState \<Rightarrow>
   (py_exc option \<times> AppState \<times> op list) option" where
  "worker_iteration settings io format_exc app =
     (case queue_get (queue app) of
        None \<Rightarrow> None
      | Some (item, q1) \<Rightarrow>
          (case process_item settings io item of (tr, outcome) \<Rightarrow>
           (let ss = session_state app;
                tel = telemetry app;
                (ss', tel', raised) =
                  (case outcome of
                     None \<Rightarrow>
                       (ss\<lparr>processed_ok := processed_ok ss + 1\<rparr>,
                        tel\<lparr>files_processed := files_processed tel + 1\<rparr>,
                        None)
                   | Some e \<Rightarrow>
                       if is_Exception e
                       then (ss\<lparr>processed_err := processed_err ss + 1,
                                last_error := Some (filename item @ '': '' @ format_exc e)\<rparr>,
                             tel\<lparr>files_failed := files_failed tel + 1\<rparr>,
                             None)
                       else (ss, tel, Some e))
            in case queue_task_done q1 of
                 Inl ve \<Rightarrow>
                   Some (Some ve, app\<lparr>session_state := ss', queue := q1, telemetry := tel'\<rparr>, tr)
               | Inr q2 \<Rightarrow>
                   Some (raised,
                         app\<lparr>session_state := ss', queue := q2,
                             telemetry := tel'\<lparr>queue_depth := queue_depth tel' - 1\<rparr>\<rparr>,
                         tr))))"

section \<open>The running service\<close>

text \<open>
  The tasks of main.py as events on the shared state and the watcher's locals. Each
  event is one complete, uninterrupted run of the piece of code it names, so every
  state between two events is quiescent: no item is held by a worker.
\<close>

record System =
  sys_app :: AppState
  sys_watcher :: Watcher

definition System_init :: System where
  "System_init = \<lparr>sys_app = AppState_init, sys_watcher = Watcher_init\<rparr>"

datatype event =
    EvRecover "node option"
  | EvWatcher "path \<Rightarrow> py_exc + dirent list" real
  | EvWorker world
  | EvStart world string string "string option"
  | EvStop

text \<open>
  An event that cannot complete (a worker on the empty queue) gives \<open>None\<close>, and so
  does a recovery that raises or never returns: it is part of the start-up, and the
  service does not run without it. An exception of another event leaves the state as
  the code left it.
\<close>

fun step :: "pylib \<Rightarrow> Settings \<Rightarrow> (py_exc \<Rightarrow> string) \<Rightarrow> event \<Rightarrow> System \<Rightarrow> System option" where
  "step lib settings format_exc (EvRecover tree) s =
     (case recover settings tree (sys_app s) of
        (Returned n, app') \<Rightarrow> Some (s\<lparr>sys_app := app'\<rparr>)
      | _ \<Rightarrow> None)"
| "step lib settings format_exc (EvWatcher scandir now) s =
     (case watcher_cycle lib settings scandir now (sys_watcher s, sys_app s) of
        Inl e \<Rightarrow> Some s
      | Inr (w', app') \<Rightarrow> Some \<lparr>sys_app = app', sys_watcher = w'\<rparr>)"
| "step lib settings format_exc (EvWorker io) s =
     (case worker_iteration settings io format_exc (sys_app s) of
        None \<Rightarrow> None
      | Some (raised, app', tr) \<Rightarrow> Some (s\<lparr>sys_app := app'\<rparr>))"
| "step lib settings format_exc (EvStart io uuid today name_arg) s =
     (case watch_start settings io uuid today name_arg (session_state (sys_app s)) of
        (r, ss', tr) \<Rightarrow> Some (s\<lparr>sys_app := (sys_app s)\<lparr>session_state := ss'\<rparr>\<rparr>))"
| "step lib settings format_exc EvStop s =
     Some (s\<lparr>sys_app := (sys_app s)\<lparr>session_state := stop_session (session_state (sys_app s))\<rparr>\<rparr>)"

fun run :: "pylib \<Rightarrow> Settings \<Rightarrow> (py_exc \<Rightarrow> string) \<Rightarrow> event list \<Rightarrow> System \<Rightarrow> System option" where
  "run lib settings format_exc [] s = Some s"
| "run lib settings format_exc (ev # evs) s =
     (case step lib settings format_exc ev s of
        None \<Rightarrow> None
      | Some s' \<Rightarrow> run lib settings format_exc evs s')"

text \<open>The items an event put on the queue, read off the queue before and after.\<close>

fun enqueued_by :: "event \<Rightarrow> System \<Rightarrow> System \<Rightarrow> nat" where
  "enqueued_by (EvWorker io) s s' = 0"
| "enqueued_by ev s s' = length (items (queue (sys_app s'))) - length (items (queue (sys_app s)))"

text \<open>A completed worker iteration has finished one item.\<close>

fun finished_by :: "event \<Rightarrow> nat" where
  "finished_by (EvWorker io) = 1"
| "finished_by ev = 0"

fun items_enqueued :: "pylib \<Rightarrow> Settings \<Rightarrow> (py_exc \<Rightarrow> string) \<Rightarrow> event list \<Rightarrow> System \<Rightarrow> nat" where
  "items_enqueued lib settings format_exc [] s = 0"
| "items_enqueued lib settings format_exc (ev # evs) s =
     (case step lib settings format_exc ev s of
        None \<Rightarrow> 0
      | Some s' \<Rightarrow> enqueued_by ev s s' + items_enqueued lib settings format_exc evs s')"

fun items_finished :: "event list \<Rightarrow> nat" where
  "items_finished [] = 0"
| "items_finished (ev # evs) = finished_by ev + items_finished evs"

text \<open>
  Between two events the gauge, the queue's own count of unfinished tasks and the
  number of queued items agree.
\<close>

definition queue_consistent :: "AppState \<Rightarrow> bool" where
  "queue_consistent a =
     (queue_depth (telemetry a) = int (length (items (queue a))) \<and>
      unfinished_tasks (queue a) = int (length (items (queue a))))"

section \<open>Example data\<close>

definition ex_settings :: Settings where
  "ex_settings =
     \<lparr>nfs_incoming_dir = [''/'', ''mnt'', ''nfs'', ''incoming''],
      nfs_processing_root = [''/'', ''mnt'', ''nfs'', ''.processing''],
      local_staging_root = [''/'', ''mnt'', ''staging''],
      poll_interval_s = 2, min_file_age_s = 5,
      file_extensions = {''.bin''},
      max_queue_size = 2000,
      azure_max_concurrency = 8\<rparr>"

definition ex_session :: SessionState where
  "ex_session =
     \<lparr>active = True, session_name = Some ''alpha'', date_prefix = Some ''20240101'',
      processed_ok = 3, processed_err = 1, last_error = Some ''old.bin: Traceback''\<rparr>"

definition ex_app :: AppState where
  "ex_app = \<lparr>session_state = ex_session, queue = Queue_init, telemetry = Telemetry_init\<rparr>"

definition ex_entries :: "dirent list" where
  "ex_entries =
     [\<lparr>d_name = ''x.BIN'', d_is_file = True, d_stat = Inr (1024, 90)\<rparr>,
      \<lparr>d_name = ''b.log'', d_is_file = True, d_stat = Inr (5, 10)\<rparr>,
      \<lparr>d_name = ''y.bin'', d_is_file = True, d_stat = Inr (7, 99)\<rparr>,
      \<lparr>d_name = ''z.bin'', d_is_file = False, d_stat = Inr (0, 1)\<rparr>]"

definition ex_scandir :: "path \<Rightarrow> py_exc + dirent list" where
  "ex_scandir p =
     (if p = [''/'', ''mnt'', ''nfs'', ''incoming'', ''alpha''] then Inr ex_entries
      else Inl (OSError ENOENT))"

definition ex_watcher :: Watcher where
  "ex_watcher =
     \<lparr>previous = [(''x.BIN'', (1024, 90)), (''y.bin'', (7, 99))], pending = {''gone.bin''},
      backoff = 0\<rparr>"

definition ex_tree :: "node option" where
  "ex_tree =
     Some (Dir (Inr
       [(''20240102'',
           Dir (Inr [(''beta'', Dir (Inr [(''c.bin'', File), (''d.bin.completed'', File)]))])),
        (''20240101'',
           Dir (Inr [(''alpha'', Dir (Inr [(''a.bin'', File), (''sub'', Dir (Inr []))])),
                     (''note.txt'', File)])),
        (''README'', File)]))"

definition ex_completed_tree :: "node option" where
  "ex_completed_tree =
     Some (Dir (Inr
       [(''20240101'', Dir (Inr [(''alpha'', Dir (Inr [(''a.bin.completed'', File)]))]))]))"

definition ex_small_queue :: Settings where
  "ex_small_queue = ex_settings\<lparr>max_queue_size := 1\<rparr>"

definition ex_world :: world where
  "ex_world x = None"

definition ex_denied_world :: world where
  "ex_denied_world x =
     (case x of
        Makedirs p \<Rightarrow> if p = [''/'', ''mnt'', ''staging'', ''20240102'', ''beta''] then Some (OSError 13) else None
      | _ \<Rightarrow> None)"

definition ex_idle :: SessionState where
  "ex_idle = ex_session\<lparr>active := False\<rparr>"

definition ex_item :: WorkItem where
  "ex_item = mk_item [''/'', ''mnt'', ''nfs'', ''incoming'', ''alpha''] ''alpha'' ''20240101'' ''x.BIN''"

definition ex_queued_app :: AppState where
  "ex_queued_app =
     \<lparr>session_state = ex_session,
      queue = \<lparr>items = [ex_item], unfinished_tasks = 1\<rparr>,
      telemetry = \<lparr>queue_depth = 1, files_processed = 3, files_failed = 1\<rparr>\<rparr>"

definition ex_claimed_world :: world where
  "ex_claimed_world x = (case x of Rename src dst \<Rightarrow> Some (OSError ENOENT) | _ \<Rightarrow> None)"

definition ex_cancel_world :: world where
  "ex_cancel_world x = (case x of Upload p b n \<Rightarrow> Some CancelledError | _ \<Rightarrow> None)"

definition ex_full_world :: world where
  "ex_full_world x = (case x of CopyFsync src dst \<Rightarrow> Some (OSError 28) | _ \<Rightarrow> None)"

definition ex_format_exc :: "py_exc \<Rightarrow> string" where
  "ex_format_exc e = ''Traceback (most recent call last)''"

definition ex_events :: "event list" where
  "ex_events =
     [EvRecover ex_tree, EvWorker ex_full_world, EvStop, EvWorker ex_cancel_world,
      EvStart ex_world ''0190-uuid'' ''20240102'' (Some ''alpha''),
      EvWatcher ex_scandir 50, EvWatcher ex_scandir 100]"

definition ex_final :: System where
  "ex_final =
     \<lparr>sys_app =
        \<lparr>session_state =
           \<lparr>active = True, session_name = Some ''alpha'', date_prefix = Some ''20240102'',
            processed_ok = 0, processed_err = 1,
            last_error = Some ''a.bin: Traceback (most recent call last)''\<rparr>,
         queue =
           \<lparr>items =
              [mk_item [''/'', ''mnt'', ''nfs'', ''incoming'', ''alpha''] ''alpha'' ''20240102''
                 ''x.BIN''],
            unfinished_tasks = 1\<rparr>,
         telemetry = \<lparr>queue_depth = 1, files_processed = 0, files_failed = 1\<rparr>\<rparr>,
      sys_watcher =
        \<lparr>previous = [(''x.BIN'', (1024, 90)), (''y.bin'', (7, 99))], pending = {''x.BIN''},
         backoff = 0\<rparr>\<rparr>"

section \<open>Facts about the string helpers\<close>

lemma ascii_lib_sel [simp]:
  "str_lower ascii_lib = ascii_lower" "str_strip ascii_lib = ascii_strip"
  by (simp_all add: ascii_lib_def)





















lemma ascii_lower_char_ascii: "digit7 (ascii_lower_char c) = digit7 c"
  by (auto simp: ascii_lower_char_def split: option.splits if_splits)

lemma is_ascii_lower: "is_ascii (ascii_lower s) = is_ascii s"
  by (simp add: is_ascii_def ascii_lower_def list_all_iff ascii_lower_char_ascii)










section \<open>Facts about the scan and the emit loop\<close>

lemma scan_entries_skip:
  "\<not> eligible lib allowed e \<Longrightarrow> scan_entries lib allowed (e # es) r = scan_entries lib allowed es r"
  by (auto simp: eligible_def)

lemma scan_entries_stat_ok:
  "eligible lib allowed e \<Longrightarrow> d_stat e = Inr st \<Longrightarrow>
   scan_entries lib allowed (e # es) r = scan_entries lib allowed es (AList.update (d_name e) st r)"
  by (simp add: eligible_def)

lemma scan_entries_stat_err:
  "eligible lib allowed e \<Longrightarrow> d_stat e = Inl exc \<Longrightarrow>
   scan_entries lib allowed (e # es) r =
     (if exc = OSError ENOENT \<or> exc = OSError ESTALE then scan_entries lib allowed es r
      else (r, Some exc))"
  by (simp add: eligible_def split: py_exc.splits)

declare scan_entries.simps(2) [simp del]

lemmas scan_entries_step = scan_entries_skip scan_entries_stat_ok scan_entries_stat_err

lemma scan_entries_distinct:
  "distinct (map fst r) \<Longrightarrow> distinct (map fst (fst (scan_entries lib allowed es r)))"
proof (induction es arbitrary: r)
  case Nil
  then show ?case by simp
next
  case (Cons e es)
  then show ?case
    by (cases "eligible lib allowed e"; cases "d_stat e")
       (simp_all add: scan_entries_step distinct_update)
qed

lemma scan_entries_keys_ok:
  "\<forall>k \<in> fst ` set r. \<not> ext_rejected lib allowed k \<Longrightarrow>
   \<forall>k \<in> fst ` set (fst (scan_entries lib allowed es r)). \<not> ext_rejected lib allowed k"
proof (induction es arbitrary: r)
  case Nil
  then show ?case by simp
next
  case (Cons e es)
  show ?case
  proof (cases "eligible lib allowed e")
    case False
    then show ?thesis using Cons by (simp add: scan_entries_step)
  next
    case True
    show ?thesis
    proof (cases "d_stat e")
      case (Inl exc)
      then show ?thesis using Cons True by (simp add: scan_entries_step)
    next
      case (Inr st)
      have "\<forall>k \<in> fst ` set (AList.update (d_name e) st r). \<not> ext_rejected lib allowed k"
        using Cons.prems True by (simp add: dom_update eligible_def)
      from Cons.IH[OF this] show ?thesis using True Inr by (simp add: scan_entries_step)
    qed
  qed
qed


lemma scan_directory_Inr:
  "scan_directory lib allowed listing = Inr cur \<Longrightarrow>
     (listing = Inl (OSError ENOENT) \<and> cur = []) \<or>
     (\<exists>es. listing = Inr es \<and> cur = fst (scan_entries lib allowed es []) \<and>
           snd (scan_entries lib allowed es []) \<in> {None, Some (OSError ENOENT)})"
  unfolding scan_directory_def
  by (simp split: sum.splits py_exc.splits if_splits prod.splits option.splits)

lemma scan_directory_distinct:
  "scan_directory lib allowed listing = Inr cur \<Longrightarrow> distinct (map fst cur)"
  using scan_entries_distinct[of "[]" lib allowed] by (auto dest!: scan_directory_Inr)

lemma scan_directory_keys_ok:
  "scan_directory lib allowed listing = Inr cur \<Longrightarrow> k \<in> fst ` set cur \<Longrightarrow> \<not> ext_rejected lib allowed k"
  using scan_entries_keys_ok[of "[]" lib allowed] by (auto dest!: scan_directory_Inr)




lemma emit_loop_eq:
  "distinct (map fst cur) \<Longrightarrow>
   emit_loop settings inc sn dp now prev cur (P, q, t) =
     (let sel = filter (\<lambda>(f, st). f \<notin> P \<and> map_of prev f = Some st \<and>
                                  \<not> now - snd st < min_file_age_s settings) cur
      in (P \<union> fst ` set sel,
          q\<lparr>items := items q @ map (\<lambda>(f, st). mk_item inc sn dp f) sel,
            unfinished_tasks := unfinished_tasks q + int (length sel)\<rparr>,
          t\<lparr>queue_depth := queue_depth t + int (length sel)\<rparr>))"
proof (induction cur arbitrary: P q t)
  case Nil
  then show ?case by simp
next
  case (Cons a cur)
  obtain f sz mt where a: "a = (f, (sz, mt))" by (cases a) auto
  from Cons.prems have d: "distinct (map fst cur)" and nf: "f \<notin> fst ` set cur"
    by (auto simp: a)
  have same: "filter (\<lambda>(g, st). g \<notin> insert f P \<and> map_of prev g = Some st \<and>
                                  \<not> now - snd st < min_file_age_s settings) cur
            = filter (\<lambda>(g, st). g \<notin> P \<and> map_of prev g = Some st \<and>
                                  \<not> now - snd st < min_file_age_s settings) cur"
    using nf by (intro filter_cong) (auto simp: image_iff)
  show ?case
    using Cons.IH[OF d] same
    by (auto simp: a Let_def queue_put_def split: option.splits)
qed

lemma mk_item_filename [simp]: "filename (mk_item inc sn dp f) = f"
  by (simp add: mk_item_def)


section \<open>The watcher: stable files, pruning and the extension filter\<close>

text \<open>
  C1. In a poll cycle with an active session and a successful scan, the cycle
  completes, and a file name is enqueued (as one WorkItem of the session, appended to
  the queue) if and only if it passed the extension filter, is in the current and in
  the previous scan with the same (size, mtime), its mtime lies at least
  \<open>min_file_age_s\<close> before \<open>now\<close>, and it was not in the pending set; the enqueued
  names are added to the pending set.
\<close>

theorem watcher_cycle_enqueues_stable_files:
  assumes act: "active (session_state app)"
    and sn: "session_name (session_state app) = Some sn"
    and dp: "date_prefix (session_state app) = Some dp"
    and scan: "scan_directory lib (allowed_extensions_of settings)
                 (scandir (pjoin (nfs_incoming_dir settings) sn)) = Inr current"
  shows "\<exists>w' app' new.
      watcher_cycle lib settings scandir now (w, app) = Inr (w', app') \<and>
      items (queue app') = items (queue app) @ new \<and>
      distinct (map filename new) \<and>
      (\<forall>it \<in> set new. it = mk_item (pjoin (nfs_incoming_dir settings) sn) sn dp (filename it)) \<and>
      (\<forall>f. f \<in> filename ` set new \<longleftrightarrow>
            \<not> ext_rejected lib (allowed_extensions_of settings) f \<and>
            (\<exists>sz mtime. map_of current f = Some (sz, mtime) \<and>
                         map_of (previous w) f = Some (sz, mtime) \<and>
                         min_file_age_s settings \<le> now - mtime) \<and>
            f \<notin> pending w) \<and>
      pending w' = prune_pending (pending w) current \<union> filename ` set new \<and>
      previous w' = current"
proof -
  let ?inc = "pjoin (nfs_incoming_dir settings) sn"
  let ?P = "prune_pending (pending w) current"
  let ?sel = "filter (\<lambda>(f, st). f \<notin> ?P \<and> map_of (previous w) f = Some st \<and>
                                  \<not> now - snd st < min_file_age_s settings) current"
  let ?new = "map (\<lambda>(f, st). mk_item ?inc sn dp f) ?sel"
  have d: "distinct (map fst current)" by (rule scan_directory_distinct[OF scan])
  have fn: "map filename ?new = map fst ?sel" by (auto simp: case_prod_unfold)
  have cyc: "watcher_cycle lib settings scandir now (w, app) =
       Inr (\<lparr>previous = current, pending = ?P \<union> fst ` set ?sel, backoff = 0\<rparr>,
            app\<lparr>queue := (queue app)\<lparr>items := items (queue app) @ ?new,
                     unfinished_tasks := unfinished_tasks (queue app) + int (length ?sel)\<rparr>,
                telemetry := (telemetry app)\<lparr>queue_depth :=
                     queue_depth (telemetry app) + int (length ?sel)\<rparr>\<rparr>)"
    using act sn dp scan emit_loop_eq[OF d, of settings ?inc sn dp now "previous w" ?P]
    by (simp add: watcher_cycle_def Let_def)
  have dn: "distinct (map filename ?new)"
    unfolding fn using d by (simp add: distinct_map_filter)
  have form: "\<forall>it \<in> set ?new. it = mk_item ?inc sn dp (filename it)"
    by auto
  have fset: "filename ` set ?new = fst ` set ?sel"
    using fn by (metis list.set_map)
  have iff: "f \<in> fst ` set ?sel \<longleftrightarrow>
            \<not> ext_rejected lib (allowed_extensions_of settings) f \<and>
            (\<exists>sz mtime. map_of current f = Some (sz, mtime) \<and>
                         map_of (previous w) f = Some (sz, mtime) \<and>
                         min_file_age_s settings \<le> now - mtime) \<and>
            f \<notin> pending w" for f
  proof
    assume "f \<in> fst ` set ?sel"
    then obtain sz mt where m: "(f, (sz, mt)) \<in> set current" and np: "f \<notin> ?P"
      and pr: "map_of (previous w) f = Some (sz, mt)" and age: "\<not> now - mt < min_file_age_s settings"
      by auto
    from m have k: "f \<in> fst ` set current" by force
    from m d have "map_of current f = Some (sz, mt)" by simp
    moreover from np k have "f \<notin> pending w" by (auto simp: prune_pending_def)
    moreover have "\<not> ext_rejected lib (allowed_extensions_of settings) f"
      by (rule scan_directory_keys_ok[OF scan k])
    ultimately show "\<not> ext_rejected lib (allowed_extensions_of settings) f \<and>
            (\<exists>sz mtime. map_of current f = Some (sz, mtime) \<and>
                         map_of (previous w) f = Some (sz, mtime) \<and>
                         min_file_age_s settings \<le> now - mtime) \<and>
            f \<notin> pending w"
      using pr age by auto
  next
    assume r: "\<not> ext_rejected lib (allowed_extensions_of settings) f \<and>
            (\<exists>sz mtime. map_of current f = Some (sz, mtime) \<and>
                         map_of (previous w) f = Some (sz, mtime) \<and>
                         min_file_age_s settings \<le> now - mtime) \<and>
            f \<notin> pending w"
    then obtain sz mt where m: "map_of current f = Some (sz, mt)"
      and pr: "map_of (previous w) f = Some (sz, mt)" and age: "min_file_age_s settings \<le> now - mt"
      by auto
    from m have "(f, (sz, mt)) \<in> set current" by (rule map_of_SomeD)
    moreover from r have "f \<notin> ?P" by (auto simp: prune_pending_def)
    ultimately have "(f, (sz, mt)) \<in> set ?sel" using pr age by auto
    then show "f \<in> fst ` set ?sel" by force
  qed
  show ?thesis
    apply (rule exI[of _ "\<lparr>previous = current, pending = ?P \<union> fst ` set ?sel, backoff = 0\<rparr>"])
    apply (rule exI[of _ "app\<lparr>queue := (queue app)\<lparr>items := items (queue app) @ ?new,
                     unfinished_tasks := unfinished_tasks (queue app) + int (length ?sel)\<rparr>,
                telemetry := (telemetry app)\<lparr>queue_depth :=
                     queue_depth (telemetry app) + int (length ?sel)\<rparr>\<rparr>"])
    apply (rule exI[of _ ?new])
    apply (intro conjI)
          apply (rule cyc)
         apply simp
        apply (rule dn)
       apply (rule form)
      apply (simp only: fset iff)
      apply simp
     apply (simp only: fset)
     apply simp
    apply simp
    done
qed

theorem watcher_cycle_witness:
  "active (session_state ex_app) \<and>
   session_name (session_state ex_app) = Some ''alpha'' \<and>
   date_prefix (session_state ex_app) = Some ''20240101'' \<and>
   scan_directory ascii_lib (allowed_extensions_of ex_settings)
          (ex_scandir (pjoin (nfs_incoming_dir ex_settings) ''alpha'')) =
        Inr [(''x.BIN'', (1024, 90)), (''y.bin'', (7, 99))] \<and>
   (\<exists>w' app' new.
      watcher_cycle ascii_lib ex_settings ex_scandir 100 (ex_watcher, ex_app) = Inr (w', app') \<and>
      items (queue app') = items (queue ex_app) @ new \<and>
      distinct (map filename new) \<and>
      (\<forall>it \<in> set new. it = mk_item (pjoin (nfs_incoming_dir ex_settings) ''alpha'')
                               ''alpha'' ''20240101'' (filename it)) \<and>
      (\<forall>f. f \<in> filename ` set new \<longleftrightarrow>
            \<not> ext_rejected ascii_lib (allowed_extensions_of ex_settings) f \<and>
            (\<exists>sz mtime. map_of [(''x.BIN'', (1024, 90)), (''y.bin'', (7, 99))] f = Some (sz, mtime) \<and>
                         map_of (previous ex_watcher) f = Some (sz, mtime) \<and>
                         min_file_age_s ex_settings \<le> 100 - mtime) \<and>
            f \<notin> pending ex_watcher) \<and>
      pending w' = prune_pending (pending ex_watcher) [(''x.BIN'', (1024, 90)), (''y.bin'', (7, 99))]
                     \<union> filename ` set new \<and>
      previous w' = [(''x.BIN'', (1024, 90)), (''y.bin'', (7, 99))])"
proof -
  have h1: "active (session_state ex_app)" by (simp add: ex_app_def ex_session_def)
  have h2: "session_name (session_state ex_app) = Some ''alpha''"
    by (simp add: ex_app_def ex_session_def)
  have h3: "date_prefix (session_state ex_app) = Some ''20240101''"
    by (simp add: ex_app_def ex_session_def)
  have h4: "scan_directory ascii_lib (allowed_extensions_of ex_settings)
          (ex_scandir (pjoin (nfs_incoming_dir ex_settings) ''alpha'')) =
        Inr [(''x.BIN'', (1024, 90)), (''y.bin'', (7, 99))]"
  by (simp add: scan_directory_def allowed_extensions_of_def ex_settings_def ex_scandir_def
        pjoin_def ex_entries_def scan_entries.simps ext_rejected_def path_suffix_def rfind_def
        ascii_lib_def ascii_lower_def ascii_lower_char_def)
  from watcher_cycle_enqueues_stable_files
         [where lib = ascii_lib and app = ex_app and settings = ex_settings and scandir = ex_scandir
            and now = 100 and w = ex_watcher, OF h1 h2 h3 h4]
  show ?thesis using h1 h2 h3 h4 by blast
qed

text \<open>
  C4, as stated, fails: the pruning expression is not a no-op. With
  \<open>pending = {"a"}\<close> and an empty current scan it empties the set.
\<close>

theorem prune_pending_not_noop: "prune_pending {''a''} [] \<noteq> {''a''}"
  by (simp add: prune_pending_def)

text \<open>
  C4, amended: \<open>pending -= pending - set(current)\<close> replaces the pending set with its
  intersection with the names of the current scan, exactly as
  \<open>pending &= set(current)\<close> would.
\<close>

theorem prune_pending_is_intersection:
  "prune_pending pending_set current = intersect_pending pending_set current"
  by (auto simp: prune_pending_def intersect_pending_def)




section \<open>Facts about the recovery scan\<close>

lemma scan_session_dir_set:
  "set (scan_session_dir sd dp sn files) =
     {recovered_item sd dp sn f | f. (f, File) \<in> set files \<and> \<not> endswith f ''.completed''}"
  by (induction sd dp sn files rule: scan_session_dir.induct) auto

lemma scan_session_dir_filenames:
  "map filename (scan_session_dir sd dp sn files) =
     map fst (filter (\<lambda>(f, nd). nd = File \<and> \<not> endswith f ''.completed'') files)"
  by (induction sd dp sn files rule: scan_session_dir.induct) (auto simp: recovered_item_def)

lemma scan_session_dir_distinct:
  "distinct (map fst files) \<Longrightarrow> distinct (scan_session_dir sd dp sn files)"
proof -
  assume "distinct (map fst files)"
  then have "distinct (map filename (scan_session_dir sd dp sn files))"
    by (simp add: scan_session_dir_filenames distinct_map_filter)
  then show ?thesis by (rule distinct_map[THEN iffD1, THEN conjunct1])
qed

lemma scan_session_dir_session:
  "it \<in> set (scan_session_dir sd dp sn files) \<Longrightarrow>
     wi_session_name it = sn \<and> wi_date_prefix it = dp \<and> from_recovery it"
  by (auto simp: scan_session_dir_set recovered_item_def)

text \<open>One step of the loop over the session directories, by the kind of the entry.\<close>

lemma scan_date_dir_unlistable:
  "scan_date_dir dd dp ((sn, Dir (Inl e)) # rest) = Inl e"
  by simp

lemma scan_date_dir_dir:
  "scan_date_dir dd dp ((sn, Dir (Inr files)) # rest) =
     (case scan_date_dir dd dp rest of
        Inl e \<Rightarrow> Inl e
      | Inr later \<Rightarrow> Inr (scan_session_dir (pjoin dd sn) dp sn files @ later))"
  by simp

lemma scan_date_dir_skip:
  "nd = File \<or> nd = Other \<Longrightarrow> scan_date_dir dd dp ((sn, nd) # rest) = scan_date_dir dd dp rest"
  by auto

lemma entry_kinds:
  obtains (Bad) e where "nd = Dir (Inl e)" | (Sub) es where "nd = Dir (Inr es)"
        | (Leaf) "nd = File \<or> nd = Other"
proof (cases nd)
  case (Dir l)
  then show ?thesis by (cases l) (auto intro: Bad Sub)
qed (auto intro: Leaf)

lemma scan_date_dir_set:
  "scan_date_dir dd dp sessions = Inr found \<Longrightarrow>
   set found =
     {recovered_item (pjoin dd sn) dp sn f | sn f files.
        (sn, Dir (Inr files)) \<in> set sessions \<and> (f, File) \<in> set files \<and>
        \<not> endswith f ''.completed''}"
proof (induction sessions arbitrary: found)
  case Nil
  then show ?case by simp
next
  case (Cons a rest)
  obtain sn nd where a: "a = (sn, nd)" by (cases a)
  show ?case
  proof (cases nd rule: entry_kinds)
    case (Bad e)
    with Cons.prems a show ?thesis by simp
  next
    case (Sub files)
    with Cons.prems a obtain later where l: "scan_date_dir dd dp rest = Inr later"
      and f: "found = scan_session_dir (pjoin dd sn) dp sn files @ later"
      by (auto split: sum.splits)
    from Cons.IH[OF l] show ?thesis
      unfolding f a Sub by (auto simp: scan_session_dir_set)
  next
    case Leaf
    with Cons.prems a have "scan_date_dir dd dp rest = Inr found" by auto
    from Cons.IH[OF this] Leaf show ?thesis unfolding a by auto
  qed
qed

lemma scan_date_dir_sessions:
  "scan_date_dir dd dp sessions = Inr found \<Longrightarrow> it \<in> set found \<Longrightarrow>
     wi_session_name it \<in> fst ` set sessions \<and> wi_date_prefix it = dp \<and> from_recovery it"
  by (drule scan_date_dir_set) (force simp: recovered_item_def)

lemma scan_date_dir_distinct:
  "scan_date_dir dd dp sessions = Inr found \<Longrightarrow>
   distinct (map fst sessions) \<Longrightarrow>
   (\<forall>(sn, nd) \<in> set sessions.
      case nd of Dir (Inr files) \<Rightarrow> distinct (map fst files) | _ \<Rightarrow> True) \<Longrightarrow>
   distinct found"
proof (induction sessions arbitrary: found)
  case Nil
  then show ?case by simp
next
  case (Cons a rest)
  obtain sn nd where a: "a = (sn, nd)" by (cases a)
  from Cons.prems have dr: "distinct (map fst rest)" and nr: "sn \<notin> fst ` set rest"
    and wr: "\<forall>(sn, nd) \<in> set rest.
               case nd of Dir (Inr files) \<Rightarrow> distinct (map fst files) | _ \<Rightarrow> True"
    by (auto simp: a)
  show ?case
  proof (cases nd rule: entry_kinds)
    case (Bad e)
    with Cons.prems a show ?thesis by simp
  next
    case (Sub files)
    with Cons.prems a obtain later where l: "scan_date_dir dd dp rest = Inr later"
      and f: "found = scan_session_dir (pjoin dd sn) dp sn files @ later"
      by (auto split: sum.splits)
    from Cons.prems Sub have df: "distinct (map fst files)" by (auto simp: a)
    have d1: "distinct (scan_session_dir (pjoin dd sn) dp sn files)"
      by (rule scan_session_dir_distinct[OF df])
    have d2: "distinct later" by (rule Cons.IH[OF l dr wr])
    have disj: "set (scan_session_dir (pjoin dd sn) dp sn files) \<inter> set later = {}"
      using nr scan_session_dir_session scan_date_dir_sessions[OF l] by blast
    show ?thesis unfolding f using d1 d2 disj by simp
  next
    case Leaf
    with Cons.prems a have "scan_date_dir dd dp rest = Inr found" by auto
    from Cons.IH[OF this dr wr] show ?thesis .
  qed
qed

lemma scan_date_dir_listable:
  "(\<forall>(sn, nd) \<in> set sessions. case nd of Dir (Inl e) \<Rightarrow> False | _ \<Rightarrow> True) \<Longrightarrow>
   \<exists>found. scan_date_dir dd dp sessions = Inr found"
proof (induction sessions)
  case Nil
  then show ?case by simp
next
  case (Cons a rest)
  obtain sn nd where a: "a = (sn, nd)" by (cases a)
  from Cons obtain later where l: "scan_date_dir dd dp rest = Inr later" by auto
  show ?case
  proof (cases nd rule: entry_kinds)
    case (Bad e)
    with Cons.prems a show ?thesis by simp
  next
    case (Sub files)
    with l a show ?thesis by simp
  next
    case Leaf
    with l a show ?thesis by auto
  qed
qed

lemma scan_root_unlistable:
  "scan_root rd ((dp, Dir (Inl e)) # rest) = Inl e"
  by simp

lemma scan_root_skip:
  "nd = File \<or> nd = Other \<Longrightarrow> scan_root rd ((dp, nd) # rest) = scan_root rd rest"
  by auto

lemma scan_root_set:
  "scan_root rd dates = Inr found \<Longrightarrow>
   set found =
     {recovered_item (pjoin (pjoin rd dp) sn) dp sn f | dp sn f sessions files.
        (dp, Dir (Inr sessions)) \<in> set dates \<and> (sn, Dir (Inr files)) \<in> set sessions \<and>
        (f, File) \<in> set files \<and> \<not> endswith f ''.completed''}"
  (is "_ \<Longrightarrow> _ = ?R dates")
proof (induction dates arbitrary: found)
  case Nil
  then show ?case by simp
next
  case (Cons a rest)
  obtain dp nd where a: "a = (dp, nd)" by (cases a)
  show ?case
  proof (cases nd rule: entry_kinds)
    case (Bad e)
    with Cons.prems a show ?thesis by simp
  next
    case (Sub sessions)
    with Cons.prems a obtain here later where
      h: "scan_date_dir (pjoin rd dp) dp (sort_key fst sessions) = Inr here"
      and l: "scan_root rd rest = Inr later" and f: "found = here @ later"
      by (auto split: sum.splits)
    have "set found = set here \<union> set later" by (simp add: f)
    also have "\<dots> = {recovered_item (pjoin (pjoin rd dp) sn) dp sn f | sn f files.
        (sn, Dir (Inr files)) \<in> set sessions \<and> (f, File) \<in> set files \<and>
        \<not> endswith f ''.completed''} \<union> ?R rest"
      using scan_date_dir_set[OF h] Cons.IH[OF l] by simp
    also have "\<dots> = ?R (a # rest)"
      unfolding a Sub by (rule set_eqI) (simp, blast)
    finally show ?thesis .
  next
    case Leaf
    with Cons.prems a have r: "scan_root rd rest = Inr found" by auto
    from Leaf have "?R (a # rest) = ?R rest"
    proof
      assume n: "nd = File"
      show ?thesis unfolding a n by auto
    next
      assume n: "nd = Other"
      show ?thesis unfolding a n by auto
    qed
    with Cons.IH[OF r] show ?thesis by simp
  qed
qed

lemma scan_root_dates:
  "scan_root rd dates = Inr found \<Longrightarrow> it \<in> set found \<Longrightarrow>
     wi_date_prefix it \<in> fst ` set dates \<and> from_recovery it"
  by (drule scan_root_set) (force simp: recovered_item_def)

lemma distinct_sort_key_fst:
  "distinct (map fst (sort_key fst xs)) = distinct (map fst xs)"
  by (simp add: distinct_map)

lemma scan_root_distinct:
  "scan_root rd dates = Inr found \<Longrightarrow>
   distinct (map fst dates) \<Longrightarrow>
   (\<forall>(dp, nd) \<in> set dates.
         case nd of
           Dir (Inr sessions) \<Rightarrow>
             distinct (map fst sessions) \<and>
             (\<forall>(sn, nd') \<in> set sessions.
                case nd' of Dir (Inr files) \<Rightarrow> distinct (map fst files) | _ \<Rightarrow> True)
         | _ \<Rightarrow> True) \<Longrightarrow>
   distinct found"
proof (induction dates arbitrary: found)
  case Nil
  then show ?case by simp
next
  case (Cons a rest)
  obtain dp nd where a: "a = (dp, nd)" by (cases a)
  from Cons.prems have dr: "distinct (map fst rest)" and nr: "dp \<notin> fst ` set rest"
    and wr: "\<forall>(dp, nd) \<in> set rest.
         case nd of
           Dir (Inr sessions) \<Rightarrow>
             distinct (map fst sessions) \<and>
             (\<forall>(sn, nd') \<in> set sessions.
                case nd' of Dir (Inr files) \<Rightarrow> distinct (map fst files) | _ \<Rightarrow> True)
         | _ \<Rightarrow> True"
    by (auto simp: a)
  show ?case
  proof (cases nd rule: entry_kinds)
    case (Bad e)
    with Cons.prems a show ?thesis by simp
  next
    case (Sub sessions)
    with Cons.prems a obtain here later where
      h: "scan_date_dir (pjoin rd dp) dp (sort_key fst sessions) = Inr here"
      and l: "scan_root rd rest = Inr later" and f: "found = here @ later"
      by (auto split: sum.splits)
    from Cons.prems Sub have ds: "distinct (map fst sessions)"
      and ws: "\<forall>(sn, nd') \<in> set sessions.
                case nd' of Dir (Inr files) \<Rightarrow> distinct (map fst files) | _ \<Rightarrow> True"
      by (auto simp: a)
    have d1: "distinct here"
      by (rule scan_date_dir_distinct[OF h]) (use ds ws in \<open>simp_all add: distinct_sort_key_fst\<close>)
    have d2: "distinct later" by (rule Cons.IH[OF l dr wr])
    have disj: "set here \<inter> set later = {}"
      using nr scan_date_dir_sessions[OF h] scan_root_dates[OF l] by blast
    show ?thesis unfolding f using d1 d2 disj by simp
  next
    case Leaf
    with Cons.prems a have "scan_root rd rest = Inr found" by auto
    from Cons.IH[OF this dr wr] show ?thesis .
  qed
qed

lemma scan_root_listable:
  "(\<forall>(dp, nd) \<in> set dates.
      case nd of
        Dir (Inl e) \<Rightarrow> False
      | Dir (Inr sessions) \<Rightarrow>
          (\<forall>(sn, nd') \<in> set sessions. case nd' of Dir (Inl e) \<Rightarrow> False | _ \<Rightarrow> True)
      | _ \<Rightarrow> True) \<Longrightarrow>
   \<exists>found. scan_root rd dates = Inr found"
proof (induction dates)
  case Nil
  then show ?case by simp
next
  case (Cons a rest)
  obtain dp nd where a: "a = (dp, nd)" by (cases a)
  from Cons obtain later where l: "scan_root rd rest = Inr later" by auto
  show ?case
  proof (cases nd rule: entry_kinds)
    case (Bad e)
    with Cons.prems a show ?thesis by simp
  next
    case (Sub sessions)
    with Cons.prems a have
      "\<forall>(sn, nd') \<in> set (sort_key fst sessions). case nd' of Dir (Inl e) \<Rightarrow> False | _ \<Rightarrow> True"
      by simp
    from scan_date_dir_listable[OF this] obtain here where
      "scan_date_dir (pjoin rd dp) dp (sort_key fst sessions) = Inr here" by blast
    with l a Sub show ?thesis by simp
  next
    case Leaf
    with l a show ?thesis by auto
  qed
qed

lemma recoverable_iff:
  assumes "distinct_names dates"
  shows "recoverable dates dp sn f \<longleftrightarrow>
     (\<exists>sessions files. (dp, Dir (Inr sessions)) \<in> set dates \<and>
        (sn, Dir (Inr files)) \<in> set sessions \<and>
        (f, File) \<in> set files \<and> \<not> endswith f ''.completed'')"
proof
  assume r: "recoverable dates dp sn f"
  then obtain sessions where m1: "map_of dates dp = Some (Dir (Inr sessions))"
    by (auto simp: recoverable_def split: option.splits node.splits sum.splits)
  with r obtain files where m2: "map_of sessions sn = Some (Dir (Inr files))"
    by (auto simp: recoverable_def split: option.splits node.splits sum.splits)
  with r m1 have m3: "map_of files f = Some File" and ne: "\<not> endswith f ''.completed''"
    by (auto simp: recoverable_def)
  from m1 m2 m3 ne show "\<exists>sessions files. (dp, Dir (Inr sessions)) \<in> set dates \<and>
        (sn, Dir (Inr files)) \<in> set sessions \<and> (f, File) \<in> set files \<and>
        \<not> endswith f ''.completed''"
    by (blast dest: map_of_SomeD)
next
  assume "\<exists>sessions files. (dp, Dir (Inr sessions)) \<in> set dates \<and>
        (sn, Dir (Inr files)) \<in> set sessions \<and>
        (f, File) \<in> set files \<and> \<not> endswith f ''.completed''"
  then obtain sessions files where i1: "(dp, Dir (Inr sessions)) \<in> set dates"
    and i2: "(sn, Dir (Inr files)) \<in> set sessions" and i3: "(f, File) \<in> set files"
    and ne: "\<not> endswith f ''.completed''" by blast
  from assms have d1: "distinct (map fst dates)" by (simp add: distinct_names_def)
  from assms i1 have d2: "distinct (map fst sessions)"
    by (fastforce simp: distinct_names_def)
  from assms i1 i2 have d3: "distinct (map fst files)"
    by (fastforce simp: distinct_names_def)
  from d1 i1 have "map_of dates dp = Some (Dir (Inr sessions))" by simp
  moreover from d2 i2 have "map_of sessions sn = Some (Dir (Inr files))" by simp
  moreover from d3 i3 have "map_of files f = Some File" by simp
  ultimately show "recoverable dates dp sn f" using ne by (simp add: recoverable_def)
qed

lemma max_by_key:
  "key (max_by key cur xs) = Max (set (key cur # map key xs))"
proof -
  have "key (max_by key cur xs) = fold max (map key xs) (key cur)"
    by (induction xs arbitrary: cur) (auto simp: max_def)
  then show ?thesis by (simp only: Max.set_eq_fold)
qed

lemma enqueue_all_room:
  "has_room m q (length xs) \<Longrightarrow>
   enqueue_all m xs (q, t) =
     (True,
      q\<lparr>items := items q @ xs, unfinished_tasks := unfinished_tasks q + int (length xs)\<rparr>,
      t\<lparr>queue_depth := queue_depth t + int (length xs)\<rparr>)"
proof (induction xs arbitrary: q t)
  case Nil
  then show ?case by simp
next
  case (Cons x xs)
  from Cons.prems have nf: "\<not> queue_full m q" and
    r: "has_room m (queue_put q x) (length xs)"
    by (auto simp: has_room_def queue_full_def queue_put_def)
  from Cons.IH[OF r] nf show ?case by (simp add: queue_put_def)
qed

lemma enqueue_all_prefix:
  "\<exists>k b. k \<le> length xs \<and>
     enqueue_all m xs (q, t) =
       (b,
        q\<lparr>items := items q @ take k xs, unfinished_tasks := unfinished_tasks q + int k\<rparr>,
        t\<lparr>queue_depth := queue_depth t + int k\<rparr>)"
proof (induction xs arbitrary: q t)
  case Nil
  show ?case by (rule exI[of _ 0], rule exI[of _ True]) simp
next
  case (Cons x xs)
  show ?case
  proof (cases "queue_full m q")
    case True
    then show ?thesis by (rule_tac x = 0 in exI, rule_tac x = False in exI) simp
  next
    case False
    from Cons[of "queue_put q x" "t\<lparr>queue_depth := queue_depth t + 1\<rparr>"]
    obtain k b where k: "k \<le> length xs" and
      e: "enqueue_all m xs (queue_put q x, t\<lparr>queue_depth := queue_depth t + 1\<rparr>) =
           (b,
            (queue_put q x)\<lparr>items := items (queue_put q x) @ take k xs,
               unfinished_tasks := unfinished_tasks (queue_put q x) + int k\<rparr>,
            t\<lparr>queue_depth := queue_depth t + 1 + int k\<rparr>)"
      by auto
    show ?thesis
      by (rule exI[of _ "Suc k"], rule exI[of _ b]) (use k e False in \<open>simp add: queue_put_def\<close>)
  qed
qed

lemma scan_processing_Inr:
  "scan_processing rd tree = Inr found \<Longrightarrow>
     scan_root rd (sort_key fst (listing_of tree)) = Inr found"
  by (auto simp: scan_processing_def listing_of_def split: option.splits node.splits sum.splits)

lemma scan_processing_set:
  assumes "distinct_names (listing_of tree)" "scan_processing rd tree = Inr found"
  shows "set found =
     {recovered_item (pjoin (pjoin rd dp) sn) dp sn f | dp sn f. recoverable (listing_of tree) dp sn f}"
  using scan_root_set[OF scan_processing_Inr[OF assms(2)]]
  by (simp only: recoverable_iff[OF assms(1)] set_sort) blast

lemma scan_processing_distinct:
  assumes "distinct_names (listing_of tree)" "scan_processing rd tree = Inr found"
  shows "distinct found"
  by (rule scan_root_distinct[OF scan_processing_Inr[OF assms(2)]])
     (use assms(1) in \<open>simp_all add: distinct_names_def distinct_sort_key_fst\<close>)

lemma scan_processing_from_recovery:
  "scan_processing rd tree = Inr found \<Longrightarrow> it \<in> set found \<Longrightarrow> from_recovery it"
  by (drule scan_processing_Inr) (auto dest: scan_root_dates)

lemma scan_processing_listable:
  "listable tree \<Longrightarrow> \<exists>found. scan_processing rd tree = Inr found"
proof (cases tree)
  case None
  then show ?thesis by (simp add: scan_processing_def)
next
  case (Some nd)
  assume l: "listable tree"
  show ?thesis
  proof (cases nd rule: entry_kinds)
    case (Bad e)
    with l Some show ?thesis by (simp add: listable_def)
  next
    case (Sub dates)
    with l Some have "\<forall>(dp, nd) \<in> set (sort_key fst dates).
      case nd of
        Dir (Inl e) \<Rightarrow> False
      | Dir (Inr sessions) \<Rightarrow>
          (\<forall>(sn, nd') \<in> set sessions. case nd' of Dir (Inl e) \<Rightarrow> False | _ \<Rightarrow> True)
      | _ \<Rightarrow> True"
      by (simp add: listable_def)
    from scan_root_listable[OF this] Some Sub show ?thesis
      by (simp add: scan_processing_def)
  next
    case Leaf
    with l Some show ?thesis by (auto simp: listable_def)
  qed
qed


subsection \<open>Recovery\<close>

text \<open>
  Recovery with room in the queue. On a processing tree that can be listed and whose
  directories have no duplicate names, and with a queue that takes all the unfinished
  files, \<open>recover\<close> appends to the queue exactly one WorkItem, with \<open>from_recovery\<close>
  set, for each regular file \<open>processing/dp/sn/f\<close> whose name does not end in
  \<open>.completed\<close>, and returns their number. If there is at least one, the session
  becomes active with the greatest \<open>(date_prefix, session_name)\<close> pair among the items;
  if there is none, it returns 0 and changes nothing.
\<close>

theorem recover_enqueues_unfinished_files:
  assumes "listable tree"
    and "distinct_names (listing_of tree)"
    and "has_room (max_queue_size settings) (queue app)
           (card {(dp, sn, f). recoverable (listing_of tree) dp sn f})"
  shows "\<exists>new app'.
     recover settings tree app = (Returned (int (length new)), app') \<and>
     items (queue app') = items (queue app) @ new \<and>
     distinct new \<and>
     set new = {recovered_item (pjoin (pjoin (nfs_processing_root settings) dp) sn) dp sn f
                | dp sn f. recoverable (listing_of tree) dp sn f} \<and>
     (\<forall>it \<in> set new. from_recovery it) \<and>
     (new \<noteq> [] \<longrightarrow>
        session_state app' =
          (session_state app)\<lparr>active := True,
             session_name := Some (snd (Max (session_key ` set new))),
             date_prefix := Some (fst (Max (session_key ` set new)))\<rparr>) \<and>
     (new = [] \<longrightarrow> app' = app) \<and>
     ((\<forall>dp sn f. \<not> recoverable (listing_of tree) dp sn f) \<longrightarrow>
        recover settings tree app = (Returned 0, app))"
proof -
  let ?rd = "nfs_processing_root settings"
  let ?S = "{(dp, sn, f). recoverable (listing_of tree) dp sn f}"
  let ?mk = "\<lambda>(dp, sn, f). recovered_item (pjoin (pjoin ?rd dp) sn) dp sn f"
  from scan_processing_listable[OF assms(1)] obtain new where
    sc: "scan_processing ?rd tree = Inr new" by blast
  have st: "set new = {recovered_item (pjoin (pjoin ?rd dp) sn) dp sn f
                | dp sn f. recoverable (listing_of tree) dp sn f}"
    by (rule scan_processing_set[OF assms(2) sc])
  have dn: "distinct new" by (rule scan_processing_distinct[OF assms(2) sc])
  have fr: "\<forall>it \<in> set new. from_recovery it"
    using scan_processing_from_recovery[OF sc] by blast
  have "set new = ?mk ` ?S" unfolding st by (auto simp: image_iff) force
  moreover have "inj_on ?mk ?S" by (auto simp: inj_on_def recovered_item_def)
  ultimately have "card (set new) = card ?S" by (simp add: card_image)
  with dn have len: "length new = card ?S" by (simp add: distinct_card)
  with assms(3) have room: "has_room (max_queue_size settings) (queue app) (length new)"
    by simp
  show ?thesis
  proof (cases new)
    case Nil
    have r: "recover settings tree app = (Returned 0, app)" by (simp add: recover_def sc Nil)
    show ?thesis
      apply (rule exI[of _ new], rule exI[of _ app])
      using st dn fr r Nil by simp
  next
    case (Cons first others)
    let ?last = "max_by session_key first others"
    let ?ss = "(session_state app)\<lparr>active := True,
                      session_name := Some (wi_session_name ?last),
                      date_prefix := Some (wi_date_prefix ?last)\<rparr>"
    let ?app' = "app\<lparr>session_state := ?ss,
                   queue := (queue app)\<lparr>items := items (queue app) @ new,
                      unfinished_tasks := unfinished_tasks (queue app) + int (length new)\<rparr>,
                   telemetry := (telemetry app)\<lparr>queue_depth :=
                      queue_depth (telemetry app) + int (length new)\<rparr>\<rparr>"
    have r: "recover settings tree app = (Returned (int (length new)), ?app')"
      using enqueue_all_room[OF room, of "telemetry app"]
      by (simp add: recover_def sc Cons Let_def)
    have k: "session_key ?last = Max (session_key ` set new)"
      using max_by_key[of session_key first others] by (simp add: Cons)
    have k1: "wi_date_prefix ?last = fst (Max (session_key ` set new))"
      and k2: "wi_session_name ?last = snd (Max (session_key ` set new))"
      using arg_cong[OF k, of fst] arg_cong[OF k, of snd] by (simp_all add: session_key_def)
    have ne: "new \<noteq> []" using Cons by simp
    have "first \<in> set new" by (simp add: Cons)
    then have nr: "\<not> (\<forall>dp sn f. \<not> recoverable (listing_of tree) dp sn f)"
      unfolding st by blast
    show ?thesis
      apply (rule exI[of _ new], rule exI[of _ ?app'])
      apply (intro conjI)
             apply (rule r)
            apply simp
           apply (rule dn)
          apply (rule st)
         apply (rule fr)
        apply (simp add: k1 k2)
       apply (simp add: ne)
      apply (simp add: nr)
      done
  qed
qed

lemma ex_tree_recoverable:
  "{(dp, sn, f). recoverable (listing_of ex_tree) dp sn f} =
     {(''20240101'', ''alpha'', ''a.bin''), (''20240102'', ''beta'', ''c.bin'')}"
  by (auto simp: recoverable_def listing_of_def ex_tree_def endswith_def
           split: if_splits option.splits)

theorem recover_witness:
  "listable ex_tree \<and>
   distinct_names (listing_of ex_tree) \<and>
   has_room (max_queue_size ex_settings) (queue AppState_init)
     (card {(dp, sn, f). recoverable (listing_of ex_tree) dp sn f}) \<and>
   recover ex_settings ex_tree AppState_init =
     (Returned 2,
      \<lparr>session_state =
          SessionState_init\<lparr>active := True, session_name := Some ''beta'',
                              date_prefix := Some ''20240102''\<rparr>,
       queue =
          \<lparr>items =
             [recovered_item [''/'', ''mnt'', ''nfs'', ''.processing'', ''20240101'', ''alpha'']
                ''20240101'' ''alpha'' ''a.bin'',
              recovered_item [''/'', ''mnt'', ''nfs'', ''.processing'', ''20240102'', ''beta'']
                ''20240102'' ''beta'' ''c.bin''],
           unfinished_tasks = 2\<rparr>,
       telemetry = Telemetry_init\<lparr>queue_depth := 2\<rparr>\<rparr>) \<and>
   (\<exists>new app'.
      recover ex_settings ex_tree AppState_init = (Returned (int (length new)), app') \<and>
      items (queue app') = items (queue AppState_init) @ new \<and>
      distinct new \<and>
      set new =
        {recovered_item (pjoin (pjoin (nfs_processing_root ex_settings) dp) sn) dp sn f
         | dp sn f. recoverable (listing_of ex_tree) dp sn f} \<and>
      (\<forall>it \<in> set new. from_recovery it) \<and>
      (new \<noteq> [] \<longrightarrow>
         session_state app' =
           (session_state AppState_init)\<lparr>active := True,
              session_name := Some (snd (Max (session_key ` set new))),
              date_prefix := Some (fst (Max (session_key ` set new)))\<rparr>) \<and>
      (new = [] \<longrightarrow> app' = AppState_init) \<and>
      ((\<forall>dp sn f. \<not> recoverable (listing_of ex_tree) dp sn f) \<longrightarrow>
         recover ex_settings ex_tree AppState_init = (Returned 0, AppState_init))) \<and>
   listable ex_completed_tree \<and>
   distinct_names (listing_of ex_completed_tree) \<and>
   (\<forall>dp sn f. \<not> recoverable (listing_of ex_completed_tree) dp sn f) \<and>
   recover ex_settings ex_completed_tree ex_app = (Returned 0, ex_app)"
proof -
  have l1: "listable ex_tree" by (simp add: listable_def ex_tree_def)
  have h1: "distinct_names (listing_of ex_tree)"
    by (simp add: distinct_names_def listing_of_def ex_tree_def)
  have r1: "has_room (max_queue_size ex_settings) (queue AppState_init)
     (card {(dp, sn, f). recoverable (listing_of ex_tree) dp sn f})"
    by (simp add: ex_tree_recoverable has_room_def ex_settings_def AppState_init_def
          Queue_init_def)
  have l2: "listable ex_completed_tree" by (simp add: listable_def ex_completed_tree_def)
  have h2: "distinct_names (listing_of ex_completed_tree)"
    by (simp add: distinct_names_def listing_of_def ex_completed_tree_def)
  have n2: "\<forall>dp sn f. \<not> recoverable (listing_of ex_completed_tree) dp sn f"
    by (simp add: recoverable_def listing_of_def ex_completed_tree_def endswith_def)
  have e2: "{(dp, sn, f). recoverable (listing_of ex_completed_tree) dp sn f} = {}"
    using n2 by auto
  have r2: "has_room (max_queue_size ex_settings) (queue ex_app)
     (card {(dp, sn, f). recoverable (listing_of ex_completed_tree) dp sn f})"
    unfolding e2 by (simp add: has_room_def ex_settings_def ex_app_def Queue_init_def)
  have v: "recover ex_settings ex_tree AppState_init =
     (Returned 2,
      \<lparr>session_state =
          SessionState_init\<lparr>active := True, session_name := Some ''beta'',
                              date_prefix := Some ''20240102''\<rparr>,
       queue =
          \<lparr>items =
             [recovered_item [''/'', ''mnt'', ''nfs'', ''.processing'', ''20240101'', ''alpha'']
                ''20240101'' ''alpha'' ''a.bin'',
              recovered_item [''/'', ''mnt'', ''nfs'', ''.processing'', ''20240102'', ''beta'']
                ''20240102'' ''beta'' ''c.bin''],
           unfinished_tasks = 2\<rparr>,
       telemetry = Telemetry_init\<lparr>queue_depth := 2\<rparr>\<rparr>)"
    by (simp add: recover_def scan_processing_def ex_tree_def less_eq_char_def less_char_def
          endswith_def ex_settings_def pjoin_def recovered_item_def session_key_def
          less_prod_def queue_put_def queue_full_def AppState_init_def Queue_init_def
          Telemetry_init_def SessionState_init_def)
  note A = recover_enqueues_unfinished_files
             [where tree = ex_tree and settings = ex_settings and app = AppState_init,
              OF l1 h1 r1]
  note B = recover_enqueues_unfinished_files
             [where tree = ex_completed_tree and settings = ex_settings and app = ex_app,
              OF l2 h2 r2]
  from B n2 have c2: "recover ex_settings ex_completed_tree ex_app = (Returned 0, ex_app)"
    by blast
  show ?thesis
    apply (intro conjI)
           apply (rule l1)
          apply (rule h1)
         apply (rule r1)
        apply (rule v)
       apply (rule A)
      apply (rule l2)
     apply (rule h2)
    apply (rule n2)
    apply (rule c2)
    done
qed

text \<open>
  C2 fails on the code when the unfinished files outnumber the free slots of the
  queue. With \<open>max_queue_size = 1\<close> and two unfinished files under \<open>processing/\<close>,
  \<open>recover\<close> sets the session, puts the first file on the queue and then never
  returns: it stays in \<open>queue.put\<close>, which no worker will ever release. The second file
  is not enqueued and no count is returned.
\<close>

theorem recover_suspends_on_full_queue:
  "max_queue_size ex_small_queue = 1 \<and>
   recoverable (listing_of ex_tree) ''20240101'' ''alpha'' ''a.bin'' \<and>
   recoverable (listing_of ex_tree) ''20240102'' ''beta'' ''c.bin'' \<and>
   recover ex_small_queue ex_tree AppState_init =
     (Suspended,
      \<lparr>session_state =
          \<lparr>active = True, session_name = Some ''beta'', date_prefix = Some ''20240102'',
           processed_ok = 0, processed_err = 0, last_error = None\<rparr>,
       queue =
          \<lparr>items =
             [recovered_item [''/'', ''mnt'', ''nfs'', ''.processing'', ''20240101'', ''alpha'']
                ''20240101'' ''alpha'' ''a.bin''],
           unfinished_tasks = 1\<rparr>,
       telemetry = \<lparr>queue_depth = 1, files_processed = 0, files_failed = 0\<rparr>\<rparr>)"
  by (simp add: recover_def scan_processing_def ex_tree_def less_eq_char_def less_char_def
        endswith_def ex_small_queue_def ex_settings_def pjoin_def recovered_item_def
        session_key_def less_prod_def queue_put_def queue_full_def AppState_init_def
        Queue_init_def Telemetry_init_def SessionState_init_def listable_def
        distinct_names_def listing_of_def recoverable_def)

section \<open>Facts about the session operations\<close>

lemma perform_trace_nonempty: "xs \<noteq> [] \<Longrightarrow> fst (perform io xs) \<noteq> []"
  by (cases xs) (auto split: option.splits prod.splits)

lemma perform_all_ok:
  "(\<forall>x \<in> set xs. io x = None) \<Longrightarrow> perform io xs = (xs, None)"
  by (induction xs) auto

lemma perform_raises:
  "perform io xs = (tr, Some e) \<Longrightarrow> \<exists>x \<in> set xs. io x = Some e"
  by (induction xs arbitrary: tr) (auto split: option.splits prod.splits)

lemma perform_ok_all:
  "perform io xs = (tr, None) \<Longrightarrow> tr = xs \<and> (\<forall>x \<in> set xs. io x = None)"
  by (induction xs arbitrary: tr) (auto split: option.splits prod.splits)

lemma start_session_idle:
  "\<not> active s \<Longrightarrow>
   start_session settings io uuid today name_arg s =
     (case perform io (session_dirs settings today (chosen_name uuid name_arg)) of
        (tr, Some e) \<Rightarrow> (Inl e, s, tr)
      | (tr, None) \<Rightarrow>
          (Inr (today, chosen_name uuid name_arg),
           s\<lparr>active := True, session_name := Some (chosen_name uuid name_arg),
             date_prefix := Some today\<rparr>,
           tr))"
  by (simp add: start_session_def chosen_name_def session_dirs_def Let_def del: perform.simps
        split: prod.splits option.splits)

lemma start_session_trace_idle:
  "\<not> active s \<Longrightarrow> snd (snd (start_session settings io uuid today name_arg s)) \<noteq> []"
  using perform_trace_nonempty[of "session_dirs settings today (chosen_name uuid name_arg)" io]
  by (auto simp: start_session_idle session_dirs_def split: prod.splits option.splits)

subsection \<open>Starting and stopping a session\<close>

text \<open>
  C5. \<open>start_session\<close> fails with its conflict error (\<open>ValueError\<close>, answered as HTTP
  409 by the endpoint), before doing anything, if and only if the session is already
  active, and then the session state is unchanged. Otherwise it settles on the
  supplied name or a generated one, takes the UTC date, and makes the incoming,
  processing and staging directories; when these calls succeed it sets
  \<open>active = True\<close> with those names and returns \<open>(date_prefix, session_name)\<close>, and
  when one of them raises, that exception propagates and the session state is
  unchanged.
\<close>

theorem start_session_conflict_iff_active:
  "((start_session settings io uuid today name_arg s =
       (Inl (ValueError ''Session already active''), s, [])) = active s) \<and>
   ((watch_start settings io uuid today name_arg s =
       (Inl (HTTPException 409 ''Session already active''), s, [])) = active s) \<and>
   (\<not> active s \<and>
    (\<forall>d \<in> set (session_dirs settings today (chosen_name uuid name_arg)). io d = None) \<longrightarrow>
      start_session settings io uuid today name_arg s =
        (Inr (today, chosen_name uuid name_arg),
         s\<lparr>active := True, session_name := Some (chosen_name uuid name_arg),
           date_prefix := Some today\<rparr>,
         session_dirs settings today (chosen_name uuid name_arg))) \<and>
   (\<not> active s \<and>
    \<not> (\<forall>d \<in> set (session_dirs settings today (chosen_name uuid name_arg)). io d = None) \<longrightarrow>
      (\<exists>e tr. start_session settings io uuid today name_arg s = (Inl e, s, tr) \<and> tr \<noteq> [] \<and>
              (\<exists>d \<in> set (session_dirs settings today (chosen_name uuid name_arg)).
                 io d = Some e)))"
proof (intro conjI impI)
  show "(start_session settings io uuid today name_arg s =
           (Inl (ValueError ''Session already active''), s, [])) = active s"
  proof (cases "active s")
    case True
    then show ?thesis by (simp add: start_session_def)
  next
    case False
    with start_session_trace_idle[OF False, of settings io uuid today name_arg]
    show ?thesis by auto
  qed
next
  show "(watch_start settings io uuid today name_arg s =
           (Inl (HTTPException 409 ''Session already active''), s, [])) = active s"
  proof (cases "active s")
    case True
    then show ?thesis by (simp add: watch_start_def)
  next
    case False
    with start_session_trace_idle[OF False, of settings io uuid today name_arg]
    show ?thesis by (auto simp: watch_start_def split: prod.splits sum.splits)
  qed
next
  assume a: "\<not> active s \<and>
    (\<forall>d \<in> set (session_dirs settings today (chosen_name uuid name_arg)). io d = None)"
  then show "start_session settings io uuid today name_arg s =
        (Inr (today, chosen_name uuid name_arg),
         s\<lparr>active := True, session_name := Some (chosen_name uuid name_arg),
           date_prefix := Some today\<rparr>,
         session_dirs settings today (chosen_name uuid name_arg))"
    by (simp add: start_session_idle perform_all_ok)
next
  let ?dirs = "session_dirs settings today (chosen_name uuid name_arg)"
  assume a: "\<not> active s \<and> \<not> (\<forall>d \<in> set ?dirs. io d = None)"
  obtain tr r where p: "perform io ?dirs = (tr, r)" by (cases "perform io ?dirs")
  from a p perform_ok_all[of io ?dirs tr] obtain e where r: "r = Some e" by (cases r) auto
  from p r perform_raises[of io ?dirs tr e] have ex: "\<exists>d \<in> set ?dirs. io d = Some e" by simp
  from perform_trace_nonempty[of ?dirs io] p have tn: "tr \<noteq> []" by (simp add: session_dirs_def)
  from a p r have "start_session settings io uuid today name_arg s = (Inl e, s, tr)"
    by (simp add: start_session_idle)
  with ex tn show "\<exists>e tr. start_session settings io uuid today name_arg s = (Inl e, s, tr) \<and>
      tr \<noteq> [] \<and> (\<exists>d \<in> set ?dirs. io d = Some e)" by blast
qed


theorem start_session_witness:
  "active ex_session \<and>
   start_session ex_settings ex_world ''0190-uuid'' ''20240102'' (Some ''beta'') ex_session =
     (Inl (ValueError ''Session already active''), ex_session, []) \<and>
   watch_start ex_settings ex_world ''0190-uuid'' ''20240102'' (Some ''beta'') ex_session =
     (Inl (HTTPException 409 ''Session already active''), ex_session, []) \<and>
   \<not> active ex_idle \<and>
   start_session ex_settings ex_world ''0190-uuid'' ''20240102'' (Some ''beta'') ex_idle =
     (Inr (''20240102'', ''beta''),
      ex_idle\<lparr>active := True, session_name := Some ''beta'', date_prefix := Some ''20240102''\<rparr>,
      [Makedirs [''/'', ''mnt'', ''nfs'', ''incoming'', ''beta''],
       Makedirs [''/'', ''mnt'', ''nfs'', ''.processing'', ''20240102'', ''beta''],
       Makedirs [''/'', ''mnt'', ''staging'', ''20240102'', ''beta'']]) \<and>
   start_session ex_settings ex_world ''0190-uuid'' ''20240102'' None ex_idle =
     (Inr (''20240102'', ''00-session-0190-uuid''),
      ex_idle\<lparr>active := True, session_name := Some ''00-session-0190-uuid'',
              date_prefix := Some ''20240102''\<rparr>,
      [Makedirs [''/'', ''mnt'', ''nfs'', ''incoming'', ''00-session-0190-uuid''],
       Makedirs [''/'', ''mnt'', ''nfs'', ''.processing'', ''20240102'', ''00-session-0190-uuid''],
       Makedirs [''/'', ''mnt'', ''staging'', ''20240102'', ''00-session-0190-uuid'']]) \<and>
   (\<exists>e tr. start_session ex_settings ex_denied_world ''0190-uuid'' ''20240102'' (Some ''beta'')
              ex_idle = (Inl e, ex_idle, tr) \<and> tr \<noteq> [] \<and> e = OSError 13)"
proof -
  note T = start_session_conflict_iff_active
  have a: "active ex_session" by (simp add: ex_session_def)
  have i: "\<not> active ex_idle" by (simp add: ex_idle_def)
  have n1: "chosen_name ''0190-uuid'' (Some ''beta'') = ''beta''" by (simp add: chosen_name_def)
  have n2: "chosen_name ''0190-uuid'' None = ''00-session-0190-uuid''"
    by (simp add: chosen_name_def generate_session_name_def)
  have d1: "session_dirs ex_settings ''20240102'' ''beta'' =
      [Makedirs [''/'', ''mnt'', ''nfs'', ''incoming'', ''beta''],
       Makedirs [''/'', ''mnt'', ''nfs'', ''.processing'', ''20240102'', ''beta''],
       Makedirs [''/'', ''mnt'', ''staging'', ''20240102'', ''beta'']]"
    by (simp add: session_dirs_def ex_settings_def pjoin_def)
  have d2: "session_dirs ex_settings ''20240102'' ''00-session-0190-uuid'' =
      [Makedirs [''/'', ''mnt'', ''nfs'', ''incoming'', ''00-session-0190-uuid''],
       Makedirs [''/'', ''mnt'', ''nfs'', ''.processing'', ''20240102'', ''00-session-0190-uuid''],
       Makedirs [''/'', ''mnt'', ''staging'', ''20240102'', ''00-session-0190-uuid'']]"
    by (simp add: session_dirs_def ex_settings_def pjoin_def)
  have c1: "start_session ex_settings ex_world ''0190-uuid'' ''20240102'' (Some ''beta'') ex_session =
     (Inl (ValueError ''Session already active''), ex_session, [])"
    using T[where settings = ex_settings and io = ex_world and uuid = "''0190-uuid''" and today = "''20240102''"
               and name_arg = "Some ''beta''" and s = ex_session,
            THEN conjunct1] a by simp
  have c2: "watch_start ex_settings ex_world ''0190-uuid'' ''20240102'' (Some ''beta'') ex_session =
     (Inl (HTTPException 409 ''Session already active''), ex_session, [])"
    using T[where settings = ex_settings and io = ex_world and uuid = "''0190-uuid''" and today = "''20240102''"
               and name_arg = "Some ''beta''" and s = ex_session,
            THEN conjunct2, THEN conjunct1] a by simp
  have ok: "\<forall>d \<in> set ds. ex_world d = None" for ds by (simp add: ex_world_def)
  have c3: "start_session ex_settings ex_world ''0190-uuid'' ''20240102'' (Some ''beta'') ex_idle =
     (Inr (''20240102'', ''beta''),
      ex_idle\<lparr>active := True, session_name := Some ''beta'', date_prefix := Some ''20240102''\<rparr>,
      session_dirs ex_settings ''20240102'' ''beta'')"
    using T[where settings = ex_settings and io = ex_world and uuid = "''0190-uuid''" and today = "''20240102''"
               and name_arg = "Some ''beta''" and s = ex_idle,
            THEN conjunct2, THEN conjunct2, THEN conjunct1] i ok
    by (simp only: n1) blast
  have c4: "start_session ex_settings ex_world ''0190-uuid'' ''20240102'' None ex_idle =
     (Inr (''20240102'', ''00-session-0190-uuid''),
      ex_idle\<lparr>active := True, session_name := Some ''00-session-0190-uuid'',
              date_prefix := Some ''20240102''\<rparr>,
      session_dirs ex_settings ''20240102'' ''00-session-0190-uuid'')"
    using T[where settings = ex_settings and io = ex_world and uuid = "''0190-uuid''" and today = "''20240102''"
               and name_arg = "None" and s = ex_idle,
            THEN conjunct2, THEN conjunct2, THEN conjunct1] i ok
    by (simp only: n2) blast
  have bad: "\<not> (\<forall>d \<in> set (session_dirs ex_settings ''20240102'' ''beta''). ex_denied_world d = None)"
    by (simp add: d1 ex_denied_world_def)
  have only: "\<forall>d \<in> set (session_dirs ex_settings ''20240102'' ''beta'').
                \<forall>e. ex_denied_world d = Some e \<longrightarrow> e = OSError 13"
    by (simp add: d1 ex_denied_world_def)
  have c5: "\<exists>e tr. start_session ex_settings ex_denied_world ''0190-uuid'' ''20240102'' (Some ''beta'')
              ex_idle = (Inl e, ex_idle, tr) \<and> tr \<noteq> [] \<and> e = OSError 13"
    using T[where settings = ex_settings and io = ex_denied_world and uuid = "''0190-uuid''" and today = "''20240102''"
               and name_arg = "Some ''beta''" and s = ex_idle,
            THEN conjunct2, THEN conjunct2, THEN conjunct2] i bad only
    by (simp only: n1) blast
  show ?thesis
    using a c1 c2 i c3 c4 c5 by (simp only: d1 d2) blast
qed

lemma start_session_cases:
  "start_session settings io uuid today name_arg s = (r, s', tr) \<Longrightarrow>
     s' = s \<or>
     s' = s\<lparr>active := True, session_name := Some (chosen_name uuid name_arg),
            date_prefix := Some today\<rparr>"
proof (cases "active s")
  case True
  then show "start_session settings io uuid today name_arg s = (r, s', tr) \<Longrightarrow> ?thesis"
    by (simp add: start_session_def)
next
  case False
  show "start_session settings io uuid today name_arg s = (r, s', tr) \<Longrightarrow> ?thesis"
    unfolding start_session_idle[OF False]
    by (auto split: prod.splits option.splits)
qed

lemma start_session_frame:
  "start_session settings io uuid today name_arg s = (r, s', tr) \<Longrightarrow>
     processed_ok s' = processed_ok s \<and> processed_err s' = processed_err s \<and>
     last_error s' = last_error s"
  by (drule start_session_cases) auto

lemma start_session_invariant:
  "start_session settings io uuid today name_arg s = (r, s', tr) \<Longrightarrow>
     session_invariant s \<Longrightarrow> session_invariant s'"
  by (drule start_session_cases) (auto simp: session_invariant_def)

lemma watch_start_state:
  "watch_start settings io uuid today name_arg s = (r, s', tr) \<Longrightarrow>
     s' = fst (snd (start_session settings io uuid today name_arg s))"
  by (cases "active s")
     (auto simp: watch_start_def start_session_def split: prod.splits sum.splits)

lemma worker_iteration_session:
  "worker_iteration settings io fmt app = Some (r, app', tr) \<Longrightarrow>
     active (session_state app') = active (session_state app) \<and>
     session_name (session_state app') = session_name (session_state app) \<and>
     date_prefix (session_state app') = date_prefix (session_state app)"
  by (auto simp: worker_iteration_def Let_def
           split: option.splits prod.splits sum.splits if_splits)

lemma recover_invariant:
  "session_invariant (session_state app) \<Longrightarrow>
   session_invariant (session_state (snd (recover settings tree app)))"
  by (auto simp: recover_def Let_def session_invariant_def
           split: sum.splits list.splits prod.splits)

lemma watcher_cycle_session:
  "watcher_cycle lib settings scandir now (w, app) = Inr (w', app') \<Longrightarrow>
     session_state app' = session_state app"
  by (auto simp: watcher_cycle_def Let_def
           split: if_splits option.splits sum.splits py_exc.splits prod.splits)


lemma step_session_invariant:
  "step lib settings fmt ev sys = Some sys' \<Longrightarrow>
   session_invariant (session_state (sys_app sys)) \<Longrightarrow>
   session_invariant (session_state (sys_app sys'))"
proof (cases ev)
  case (EvRecover tree)
  assume "step lib settings fmt ev sys = Some sys'" "session_invariant (session_state (sys_app sys))"
  then show ?thesis
    using recover_invariant[of "sys_app sys" settings tree]
    by (auto simp: EvRecover split: prod.splits recover_outcome.splits)
next
  case (EvWatcher scandir now)
  assume "step lib settings fmt ev sys = Some sys'" "session_invariant (session_state (sys_app sys))"
  then show ?thesis
    by (auto simp: EvWatcher split: sum.splits prod.splits dest: watcher_cycle_session)
next
  case (EvWorker io)
  assume "step lib settings fmt ev sys = Some sys'" "session_invariant (session_state (sys_app sys))"
  then show ?thesis
    by (auto simp: EvWorker session_invariant_def split: option.splits prod.splits
             dest!: worker_iteration_session)
next
  case (EvStart io uuid today name_arg)
  assume "step lib settings fmt ev sys = Some sys'" "session_invariant (session_state (sys_app sys))"
  then show ?thesis
    using start_session_invariant[of settings io uuid today name_arg "session_state (sys_app sys)"]
    by (auto simp: EvStart split: prod.splits dest!: watch_start_state)
       (metis prod.collapse)
next
  case EvStop
  assume "step lib settings fmt ev sys = Some sys'" "session_invariant (session_state (sys_app sys))"
  then show ?thesis
    by (auto simp: EvStop session_invariant_def stop_session_def)
qed

lemma run_session_invariant:
  "run lib settings fmt evs sys = Some sys' \<Longrightarrow>
   session_invariant (session_state (sys_app sys)) \<Longrightarrow>
   session_invariant (session_state (sys_app sys'))"
proof (induction evs arbitrary: sys)
  case Nil
  then show ?case by simp
next
  case (Cons ev evs)
  then show ?case
    by (auto split: option.splits dest: step_session_invariant)
qed

text \<open>
  C6. \<open>stop_session\<close> sets \<open>active\<close> to false and leaves the names, both counters and
  \<open>last_error\<close> as they were; \<open>start_session\<close> (and the start endpoint), whatever its
  outcome, leaves both counters and \<open>last_error\<close> as they were.
\<close>

theorem stop_session_frame:
  "active (stop_session s) = False \<and>
   session_name (stop_session s) = session_name s \<and>
   date_prefix (stop_session s) = date_prefix s \<and>
   processed_ok (stop_session s) = processed_ok s \<and>
   processed_err (stop_session s) = processed_err s \<and>
   last_error (stop_session s) = last_error s \<and>
   (case start_session settings io uuid today name_arg s of
      (r, s', tr) \<Rightarrow>
        processed_ok s' = processed_ok s \<and> processed_err s' = processed_err s \<and>
        last_error s' = last_error s) \<and>
   (case watch_start settings io uuid today name_arg s of
      (r, s', tr) \<Rightarrow>
        processed_ok s' = processed_ok s \<and> processed_err s' = processed_err s \<and>
        last_error s' = last_error s)"
proof -
  obtain r s' tr where st: "start_session settings io uuid today name_arg s = (r, s', tr)"
    by (cases "start_session settings io uuid today name_arg s") auto
  obtain r2 s2 tr2 where ws: "watch_start settings io uuid today name_arg s = (r2, s2, tr2)"
    by (cases "watch_start settings io uuid today name_arg s") auto
  from watch_start_state[OF ws] st have "s2 = s'" by simp
  with start_session_frame[OF st] st ws show ?thesis
    by (simp add: stop_session_def)
qed

theorem stop_session_frame_witness:
  "active ex_session \<and>
   \<not> active (stop_session ex_session) \<and>
   session_name (stop_session ex_session) = Some ''alpha'' \<and>
   date_prefix (stop_session ex_session) = Some ''20240101'' \<and>
   processed_ok (stop_session ex_session) = 3 \<and>
   processed_err (stop_session ex_session) = 1 \<and>
   last_error (stop_session ex_session) = Some ''old.bin: Traceback'' \<and>
   (case start_session ex_settings ex_world ''0190-uuid'' ''20240102'' (Some ''beta'')
           (stop_session ex_session) of
      (r, s', tr) \<Rightarrow> processed_ok s' = 3 \<and> processed_err s' = 1 \<and>
                      last_error s' = Some ''old.bin: Traceback'')"
proof -
  have v: "active ex_session \<and> session_name ex_session = Some ''alpha'' \<and>
           date_prefix ex_session = Some ''20240101'' \<and> processed_ok ex_session = 3 \<and>
           processed_err ex_session = 1 \<and> last_error ex_session = Some ''old.bin: Traceback''"
    by (simp add: ex_session_def)
  note A = stop_session_frame
      [where s = ex_session and settings = ex_settings and io = ex_world
         and uuid = "''0190-uuid''" and today = "''20240102''" and name_arg = "Some ''beta''"]
  note B = stop_session_frame
      [where s = "stop_session ex_session" and settings = ex_settings and io = ex_world
         and uuid = "''0190-uuid''" and today = "''20240102''" and name_arg = "Some ''beta''"]
  from A v have a: "\<not> active (stop_session ex_session) \<and>
   session_name (stop_session ex_session) = Some ''alpha'' \<and>
   date_prefix (stop_session ex_session) = Some ''20240101'' \<and>
   processed_ok (stop_session ex_session) = 3 \<and>
   processed_err (stop_session ex_session) = 1 \<and>
   last_error (stop_session ex_session) = Some ''old.bin: Traceback''"
    by simp
  from B[THEN conjunct2, THEN conjunct2, THEN conjunct2, THEN conjunct2, THEN conjunct2,
         THEN conjunct2, THEN conjunct1] a
  have b: "case start_session ex_settings ex_world ''0190-uuid'' ''20240102'' (Some ''beta'')
           (stop_session ex_session) of
      (r, s', tr) \<Rightarrow> processed_ok s' = 3 \<and> processed_err s' = 1 \<and>
                      last_error s' = Some ''old.bin: Traceback''"
    by (simp split: prod.splits)
  from v a b show ?thesis by blast
qed

text \<open>
  C7. The invariant "an active session has a session name and a date prefix" holds
  of the initial \<open>SessionState\<close> and is kept by \<open>start_session\<close> (whatever its
  outcome), by \<open>stop_session\<close>, by \<open>recover\<close> (however it ends) and by a worker
  iteration; hence it holds in every state the service reaches.
\<close>

theorem session_invariant_preserved:
  "session_invariant SessionState_init \<and>
   (session_invariant s \<longrightarrow>
      session_invariant (fst (snd (start_session settings io uuid today name_arg s)))) \<and>
   (session_invariant s \<longrightarrow> session_invariant (stop_session s)) \<and>
   (session_invariant (session_state app) \<longrightarrow>
      session_invariant (session_state (snd (recover settings tree app)))) \<and>
   (session_invariant (session_state app) \<longrightarrow>
      (\<forall>r app' tr. worker_iteration settings io fmt app = Some (r, app', tr) \<longrightarrow>
         session_invariant (session_state app'))) \<and>
   (\<forall>sys. run lib settings fmt evs System_init = Some sys \<longrightarrow>
      session_invariant (session_state (sys_app sys)))"
proof (intro conjI impI allI)
  show i: "session_invariant SessionState_init"
    by (simp add: session_invariant_def SessionState_init_def)
  show "session_invariant (fst (snd (start_session settings io uuid today name_arg s)))"
    if "session_invariant s"
    using that start_session_invariant[of settings io uuid today name_arg s]
    by (metis prod.collapse)
  show "session_invariant (stop_session s)" if "session_invariant s"
    using that by (simp add: session_invariant_def stop_session_def)
  show "session_invariant (session_state (snd (recover settings tree app)))"
    if "session_invariant (session_state app)"
    using that by (rule recover_invariant)
  show "session_invariant (session_state app')"
    if "session_invariant (session_state app)"
      and "worker_iteration settings io fmt app = Some (r, app', tr)" for r app' tr
    using that worker_iteration_session[of settings io fmt app r app' tr]
    by (simp add: session_invariant_def)
  show "session_invariant (session_state (sys_app sys))"
    if "run lib settings fmt evs System_init = Some sys" for sys
    using run_session_invariant[OF that] i
    by (simp add: System_init_def AppState_init_def)
qed

section \<open>Facts about the worker\<close>

lemma process_item_already_claimed:
  assumes "\<not> from_recovery item"
    and "io (Rename (source_path item) (processing_path_of settings item)) = Some (OSError eno)"
    and "eno = ENOENT \<or> eno = ESTALE"
  shows "process_item settings io item =
           ([Rename (source_path item) (processing_path_of settings item)], None)"
  using assms
  by (auto simp add: process_item_def processing_path_of_def Let_def simp del: perform.simps)

lemma worker_iteration_eq:
  assumes "queue_get (queue app) = Some (item, q1)"
    and "0 < unfinished_tasks (queue app)"
    and "process_item settings io item = (tr, outcome)"
  shows "worker_iteration settings io fmt app =
     Some (case outcome of
             None \<Rightarrow>
               (None,
                app\<lparr>session_state := (session_state app)
                        \<lparr>processed_ok := processed_ok (session_state app) + 1\<rparr>,
                    queue := q1\<lparr>unfinished_tasks := unfinished_tasks (queue app) - 1\<rparr>,
                    telemetry := (telemetry app)
                        \<lparr>files_processed := files_processed (telemetry app) + 1,
                         queue_depth := queue_depth (telemetry app) - 1\<rparr>\<rparr>,
                tr)
           | Some e \<Rightarrow>
               if is_Exception e
               then (None,
                     app\<lparr>session_state := (session_state app)
                             \<lparr>processed_err := processed_err (session_state app) + 1,
                              last_error := Some (filename item @ '': '' @ fmt e)\<rparr>,
                         queue := q1\<lparr>unfinished_tasks := unfinished_tasks (queue app) - 1\<rparr>,
                         telemetry := (telemetry app)
                             \<lparr>files_failed := files_failed (telemetry app) + 1,
                              queue_depth := queue_depth (telemetry app) - 1\<rparr>\<rparr>,
                     tr)
               else (Some e,
                     app\<lparr>queue := q1\<lparr>unfinished_tasks := unfinished_tasks (queue app) - 1\<rparr>,
                         telemetry := (telemetry app)
                             \<lparr>queue_depth := queue_depth (telemetry app) - 1\<rparr>\<rparr>,
                     tr))"
proof -
  from assms(1) have u: "unfinished_tasks q1 = unfinished_tasks (queue app)"
    by (auto simp: queue_get_def split: list.splits)
  show ?thesis
    using assms u
    by (cases outcome) (auto simp: worker_iteration_def queue_task_done_def Let_def)
qed


lemma ex_queue_get: "queue_get (queue ex_queued_app) = Some (ex_item, \<lparr>items = [], unfinished_tasks = 1\<rparr>)"
  by (simp add: queue_get_def ex_queued_app_def)

lemma ex_process_cancelled:
  "process_item ex_settings ex_cancel_world ex_item =
     ([Rename [''/'', ''mnt'', ''nfs'', ''incoming'', ''alpha'', ''x.BIN'']
              [''/'', ''mnt'', ''nfs'', ''.processing'', ''20240101'', ''alpha'', ''x.BIN''],
       Makedirs [''/'', ''mnt'', ''staging'', ''20240101'', ''alpha''],
       CopyFsync [''/'', ''mnt'', ''nfs'', ''.processing'', ''20240101'', ''alpha'', ''x.BIN'']
                 [''/'', ''mnt'', ''staging'', ''20240101'', ''alpha'', ''x.BIN''],
       Stat [''/'', ''mnt'', ''staging'', ''20240101'', ''alpha'', ''x.BIN''],
       Upload [''/'', ''mnt'', ''staging'', ''20240101'', ''alpha'', ''x.BIN'']
              ''20240101/alpha/x.BIN'' 8],
      Some CancelledError)"
  by (simp add: process_item_def ex_settings_def ex_cancel_world_def ex_item_def mk_item_def
        pjoin_def Let_def)

lemma ex_process_ok:
  "process_item ex_settings ex_world ex_item =
     ([Rename [''/'', ''mnt'', ''nfs'', ''incoming'', ''alpha'', ''x.BIN'']
              [''/'', ''mnt'', ''nfs'', ''.processing'', ''20240101'', ''alpha'', ''x.BIN''],
       Makedirs [''/'', ''mnt'', ''staging'', ''20240101'', ''alpha''],
       CopyFsync [''/'', ''mnt'', ''nfs'', ''.processing'', ''20240101'', ''alpha'', ''x.BIN'']
                 [''/'', ''mnt'', ''staging'', ''20240101'', ''alpha'', ''x.BIN''],
       Stat [''/'', ''mnt'', ''staging'', ''20240101'', ''alpha'', ''x.BIN''],
       Upload [''/'', ''mnt'', ''staging'', ''20240101'', ''alpha'', ''x.BIN'']
              ''20240101/alpha/x.BIN'' 8,
       Rename [''/'', ''mnt'', ''nfs'', ''.processing'', ''20240101'', ''alpha'', ''x.BIN'']
              [''/'', ''mnt'', ''nfs'', ''.processing'', ''20240101'', ''alpha'', ''x.BIN.completed''],
       Unlink [''/'', ''mnt'', ''staging'', ''20240101'', ''alpha'', ''x.BIN'']],
      None)"
  by (simp add: process_item_def ex_settings_def ex_world_def ex_item_def mk_item_def
        pjoin_def Let_def)

lemma ex_process_full:
  "process_item ex_settings ex_full_world ex_item =
     ([Rename [''/'', ''mnt'', ''nfs'', ''incoming'', ''alpha'', ''x.BIN'']
              [''/'', ''mnt'', ''nfs'', ''.processing'', ''20240101'', ''alpha'', ''x.BIN''],
       Makedirs [''/'', ''mnt'', ''staging'', ''20240101'', ''alpha''],
       CopyFsync [''/'', ''mnt'', ''nfs'', ''.processing'', ''20240101'', ''alpha'', ''x.BIN'']
                 [''/'', ''mnt'', ''staging'', ''20240101'', ''alpha'', ''x.BIN'']],
      Some (OSError 28))"
  by (simp add: process_item_def ex_settings_def ex_full_world_def ex_item_def mk_item_def
        pjoin_def Let_def)

subsection \<open>Accounting of the worker\<close>

text \<open>
  C3, as stated, fails: an exception that is not an \<open>Exception\<close> passes the
  \<open>except Exception\<close> clause. When the upload is cancelled the worker leaves
  \<open>processed_err\<close>, \<open>files.failed\<close> and \<open>last_error\<close> as they were (the session state is
  unchanged); only the \<open>finally\<close> block runs, and the \<open>CancelledError\<close> leaves the loop.
\<close>

theorem worker_cancelled_not_counted:
  "processed_err (session_state ex_queued_app) = 1 \<and>
   files_failed (telemetry ex_queued_app) = 1 \<and>
   last_error (session_state ex_queued_app) = Some ''old.bin: Traceback'' \<and>
   snd (process_item ex_settings ex_cancel_world ex_item) = Some CancelledError \<and>
   worker_iteration ex_settings ex_cancel_world ex_format_exc ex_queued_app =
     Some (Some CancelledError,
           \<lparr>session_state =
              \<lparr>active = True, session_name = Some ''alpha'', date_prefix = Some ''20240101'',
               processed_ok = 3, processed_err = 1, last_error = Some ''old.bin: Traceback''\<rparr>,
            queue = \<lparr>items = [], unfinished_tasks = 0\<rparr>,
            telemetry = \<lparr>queue_depth = 0, files_processed = 3, files_failed = 1\<rparr>\<rparr>,
           fst (process_item ex_settings ex_cancel_world ex_item))"
  using worker_iteration_eq[OF ex_queue_get _ ex_process_cancelled, of ex_format_exc]
  by (simp add: ex_process_cancelled) (simp add: ex_queued_app_def ex_session_def)

text \<open>
  C3, amended: for every dequeued WorkItem, if processing raises nothing the worker
  increments \<open>processed_ok\<close> and \<open>files.processed\<close>; if it raises an exception that is
  an instance of \<open>Exception\<close> the worker increments \<open>processed_err\<close> and \<open>files.failed\<close>
  and stores \<open>"<filename>: <stacktrace>"\<close> in \<open>last_error\<close>; if it raises any other
  exception (a cancellation) the counters and \<open>last_error\<close> stay as they were and the
  exception propagates. In all three cases the \<open>queue.depth\<close> gauge is decremented and
  the queue task is marked done exactly once.
\<close>

theorem worker_accounting:
  assumes "queue_get (queue app) = Some (item, q1)"
    and "0 < unfinished_tasks (queue app)"
    and "process_item settings io item = (tr, outcome)"
  shows "\<exists>raised app'.
     worker_iteration settings io fmt app = Some (raised, app', tr) \<and>
     (outcome = None \<longrightarrow>
        raised = None \<and>
        session_state app' =
          (session_state app)\<lparr>processed_ok := processed_ok (session_state app) + 1\<rparr> \<and>
        files_processed (telemetry app') = files_processed (telemetry app) + 1 \<and>
        files_failed (telemetry app') = files_failed (telemetry app)) \<and>
     (\<forall>e. outcome = Some e \<and> is_Exception e \<longrightarrow>
        raised = None \<and>
        session_state app' =
          (session_state app)\<lparr>processed_err := processed_err (session_state app) + 1,
                               last_error := Some (filename item @ '': '' @ fmt e)\<rparr> \<and>
        files_failed (telemetry app') = files_failed (telemetry app) + 1 \<and>
        files_processed (telemetry app') = files_processed (telemetry app)) \<and>
     (\<forall>e. outcome = Some e \<and> \<not> is_Exception e \<longrightarrow>
        raised = Some e \<and>
        session_state app' = session_state app \<and>
        files_failed (telemetry app') = files_failed (telemetry app) \<and>
        files_processed (telemetry app') = files_processed (telemetry app)) \<and>
     queue_depth (telemetry app') = queue_depth (telemetry app) - 1 \<and>
     unfinished_tasks (queue app') = unfinished_tasks (queue app) - 1 \<and>
     items (queue app') = items q1"
proof (cases outcome)
  case None
  show ?thesis
    unfolding worker_iteration_eq[OF assms, of fmt] None by simp
next
  case (Some e)
  show ?thesis
    unfolding worker_iteration_eq[OF assms, of fmt] Some by (cases "is_Exception e") simp_all
qed

theorem worker_accounting_witness:
  "queue_get (queue ex_queued_app) = Some (ex_item, \<lparr>items = [], unfinished_tasks = 1\<rparr>) \<and>
   0 < unfinished_tasks (queue ex_queued_app) \<and>
   processed_ok (session_state ex_queued_app) = 3 \<and>
   processed_err (session_state ex_queued_app) = 1 \<and>
   queue_depth (telemetry ex_queued_app) = 1 \<and>
   snd (process_item ex_settings ex_world ex_item) = None \<and>
   (\<exists>app'. worker_iteration ex_settings ex_world ex_format_exc ex_queued_app =
             Some (None, app', fst (process_item ex_settings ex_world ex_item)) \<and>
           processed_ok (session_state app') = 4 \<and>
           processed_err (session_state app') = 1 \<and>
           files_processed (telemetry app') = 4 \<and>
           queue_depth (telemetry app') = 0 \<and>
           unfinished_tasks (queue app') = 0) \<and>
   snd (process_item ex_settings ex_full_world ex_item) = Some (OSError 28) \<and>
   (\<exists>app'. worker_iteration ex_settings ex_full_world ex_format_exc ex_queued_app =
             Some (None, app', fst (process_item ex_settings ex_full_world ex_item)) \<and>
           processed_ok (session_state app') = 3 \<and>
           processed_err (session_state app') = 2 \<and>
           files_failed (telemetry app') = 2 \<and>
           last_error (session_state app') =
             Some ''x.BIN: Traceback (most recent call last)'' \<and>
           queue_depth (telemetry app') = 0 \<and>
           unfinished_tasks (queue app') = 0) \<and>
   snd (process_item ex_settings ex_cancel_world ex_item) = Some CancelledError \<and>
   (\<exists>app'. worker_iteration ex_settings ex_cancel_world ex_format_exc ex_queued_app =
             Some (Some CancelledError, app',
                   fst (process_item ex_settings ex_cancel_world ex_item)) \<and>
           session_state app' = session_state ex_queued_app \<and>
           files_failed (telemetry app') = 1 \<and>
           queue_depth (telemetry app') = 0 \<and>
           unfinished_tasks (queue app') = 0)"
proof -
  have u: "0 < unfinished_tasks (queue ex_queued_app)" by (simp add: ex_queued_app_def)
  have v: "processed_ok (session_state ex_queued_app) = 3 \<and>
           processed_err (session_state ex_queued_app) = 1 \<and>
           queue_depth (telemetry ex_queued_app) = 1 \<and>
           files_processed (telemetry ex_queued_app) = 3 \<and>
           files_failed (telemetry ex_queued_app) = 1 \<and>
           unfinished_tasks (queue ex_queued_app) = 1"
    by (simp add: ex_queued_app_def ex_session_def)
  have f: "filename ex_item = ''x.BIN''" by (simp add: ex_item_def)
  have a: "\<exists>app'. worker_iteration ex_settings ex_world ex_format_exc ex_queued_app =
             Some (None, app', fst (process_item ex_settings ex_world ex_item)) \<and>
           processed_ok (session_state app') = 4 \<and>
           processed_err (session_state app') = 1 \<and>
           files_processed (telemetry app') = 4 \<and>
           queue_depth (telemetry app') = 0 \<and>
           unfinished_tasks (queue app') = 0"
    using worker_accounting[OF ex_queue_get u ex_process_ok, of ex_format_exc] v
    by (auto simp: ex_process_ok)
  have b: "\<exists>app'. worker_iteration ex_settings ex_full_world ex_format_exc ex_queued_app =
             Some (None, app', fst (process_item ex_settings ex_full_world ex_item)) \<and>
           processed_ok (session_state app') = 3 \<and>
           processed_err (session_state app') = 2 \<and>
           files_failed (telemetry app') = 2 \<and>
           last_error (session_state app') =
             Some ''x.BIN: Traceback (most recent call last)'' \<and>
           queue_depth (telemetry app') = 0 \<and>
           unfinished_tasks (queue app') = 0"
    using worker_accounting[OF ex_queue_get u ex_process_full, of ex_format_exc] v f
    by (auto simp: ex_process_full ex_format_exc_def)
  have c: "\<exists>app'. worker_iteration ex_settings ex_cancel_world ex_format_exc ex_queued_app =
             Some (Some CancelledError, app',
                   fst (process_item ex_settings ex_cancel_world ex_item)) \<and>
           session_state app' = session_state ex_queued_app \<and>
           files_failed (telemetry app') = 1 \<and>
           queue_depth (telemetry app') = 0 \<and>
           unfinished_tasks (queue app') = 0"
    using worker_accounting[OF ex_queue_get u ex_process_cancelled, of ex_format_exc] v
    by (auto simp: ex_process_cancelled)
  show ?thesis
    using ex_queue_get u v a b c
    by (simp add: ex_process_ok ex_process_full ex_process_cancelled)
qed

text \<open>
  C10. For a non-recovery item whose claim rename fails with \<open>ENOENT\<close> or \<open>ESTALE\<close>,
  \<open>_process_item\<close> returns normally having made no call but the rename (nothing is
  staged, uploaded or committed), and the worker counts the item in \<open>processed_ok\<close>
  and \<open>files.processed\<close>, not in \<open>processed_err\<close> or \<open>files.failed\<close>.
\<close>

theorem already_claimed_counts_as_success:
  assumes "queue_get (queue app) = Some (item, q1)"
    and "0 < unfinished_tasks (queue app)"
    and "\<not> from_recovery item"
    and "io (Rename (source_path item) (processing_path_of settings item)) = Some (OSError eno)"
    and "eno = ENOENT \<or> eno = ESTALE"
  shows "process_item settings io item =
           ([Rename (source_path item) (processing_path_of settings item)], None) \<and>
         (\<exists>app'.
            worker_iteration settings io fmt app =
              Some (None, app', [Rename (source_path item) (processing_path_of settings item)]) \<and>
            processed_ok (session_state app') = processed_ok (session_state app) + 1 \<and>
            files_processed (telemetry app') = files_processed (telemetry app) + 1 \<and>
            processed_err (session_state app') = processed_err (session_state app) \<and>
            files_failed (telemetry app') = files_failed (telemetry app) \<and>
            last_error (session_state app') = last_error (session_state app))"
proof -
  have p: "process_item settings io item =
           ([Rename (source_path item) (processing_path_of settings item)], None)"
    using assms(3,4,5)
    by (rule process_item_already_claimed[where io = io and item = item and eno = eno])
  show ?thesis
    unfolding worker_iteration_eq[OF assms(1,2) p, of fmt] using p by simp
qed


lemma ex_claim_fails:
  "\<not> from_recovery ex_item \<and>
   ex_claimed_world (Rename (source_path ex_item) (processing_path_of ex_settings ex_item)) =
     Some (OSError ENOENT) \<and>
   Rename (source_path ex_item) (processing_path_of ex_settings ex_item) =
     Rename [''/'', ''mnt'', ''nfs'', ''incoming'', ''alpha'', ''x.BIN'']
            [''/'', ''mnt'', ''nfs'', ''.processing'', ''20240101'', ''alpha'', ''x.BIN'']"
  by (simp add: ex_item_def mk_item_def ex_claimed_world_def processing_path_of_def
        ex_settings_def pjoin_def)

theorem already_claimed_witness:
  "queue_get (queue ex_queued_app) = Some (ex_item, \<lparr>items = [], unfinished_tasks = 1\<rparr>) \<and>
   0 < unfinished_tasks (queue ex_queued_app) \<and>
   \<not> from_recovery ex_item \<and>
   ex_claimed_world (Rename (source_path ex_item) (processing_path_of ex_settings ex_item)) =
     Some (OSError ENOENT) \<and>
   process_item ex_settings ex_claimed_world ex_item =
     ([Rename [''/'', ''mnt'', ''nfs'', ''incoming'', ''alpha'', ''x.BIN'']
              [''/'', ''mnt'', ''nfs'', ''.processing'', ''20240101'', ''alpha'', ''x.BIN'']],
      None) \<and>
   (\<exists>app'.
      worker_iteration ex_settings ex_claimed_world ex_format_exc ex_queued_app =
        Some (None, app',
              [Rename [''/'', ''mnt'', ''nfs'', ''incoming'', ''alpha'', ''x.BIN'']
                      [''/'', ''mnt'', ''nfs'', ''.processing'', ''20240101'', ''alpha'', ''x.BIN'']]) \<and>
      processed_ok (session_state app') = 4 \<and>
      files_processed (telemetry app') = 4 \<and>
      processed_err (session_state app') = 1 \<and>
      files_failed (telemetry app') = 1)"
proof -
  have u: "0 < unfinished_tasks (queue ex_queued_app)" by (simp add: ex_queued_app_def)
  have v: "processed_ok (session_state ex_queued_app) = 3 \<and>
           processed_err (session_state ex_queued_app) = 1 \<and>
           files_processed (telemetry ex_queued_app) = 3 \<and>
           files_failed (telemetry ex_queued_app) = 1"
    by (simp add: ex_queued_app_def ex_session_def)
  note c = ex_claim_fails
  have e: "ENOENT = ENOENT \<or> ENOENT = ESTALE" by simp
  note T = already_claimed_counts_as_success
      [where app = ex_queued_app and item = ex_item and io = ex_claimed_world
         and settings = ex_settings and eno = ENOENT and fmt = ex_format_exc,
       OF ex_queue_get u c[THEN conjunct1] c[THEN conjunct2, THEN conjunct1] e]
  show ?thesis
    using ex_queue_get u c T v
    by (simp only: c[THEN conjunct2, THEN conjunct2]) auto
qed

section \<open>Facts about the queue and its gauge\<close>

lemma recover_queue:
  assumes "recover settings tree a = (r, a')"
  shows "\<exists>new. items (queue a') = items (queue a) @ new \<and>
           queue_depth (telemetry a') = queue_depth (telemetry a) + int (length new) \<and>
           unfinished_tasks (queue a') = unfinished_tasks (queue a) + int (length new)"
proof (cases "scan_processing (nfs_processing_root settings) tree")
  case (Inl e)
  with assms show ?thesis by (simp add: recover_def)
next
  case (Inr found)
  show ?thesis
  proof (cases found)
    case Nil
    with assms Inr show ?thesis by (simp add: recover_def)
  next
    case (Cons first others)
    from enqueue_all_prefix[of found "max_queue_size settings" "queue a" "telemetry a"]
    obtain k b where k: "k \<le> length found" and
      e: "enqueue_all (max_queue_size settings) found (queue a, telemetry a) =
            (b,
             (queue a)\<lparr>items := items (queue a) @ take k found,
                unfinished_tasks := unfinished_tasks (queue a) + int k\<rparr>,
             (telemetry a)\<lparr>queue_depth := queue_depth (telemetry a) + int k\<rparr>)"
      by blast
    from assms Inr e k show ?thesis
      unfolding Cons[symmetric]
      by (intro exI[of _ "take k found"]) (auto simp: recover_def Let_def Cons)
  qed
qed

lemma watcher_cycle_queue:
  assumes a: "watcher_cycle lib settings scandir now (w, a) = Inr (w', a')"
  shows "\<exists>new. items (queue a') = items (queue a) @ new \<and>
           queue_depth (telemetry a') = queue_depth (telemetry a) + int (length new) \<and>
           unfinished_tasks (queue a') = unfinished_tasks (queue a) + int (length new)"
proof (cases "active (session_state a)")
  case False
  with a show ?thesis by (auto simp: watcher_cycle_def)
next
  case True
  show ?thesis
  proof (cases "session_name (session_state a)")
    case None
    with a True show ?thesis by (simp add: watcher_cycle_def)
  next
    case (Some sn)
    show ?thesis
    proof (cases "date_prefix (session_state a)")
      case None
      with a True Some show ?thesis by (simp add: watcher_cycle_def)
    next
      case dp: (Some dp)
      show ?thesis
      proof (cases "scan_directory lib (allowed_extensions_of settings)
                      (scandir (pjoin (nfs_incoming_dir settings) sn))")
        case (Inl e)
        with a True Some dp show ?thesis
          by (cases e) (auto simp: watcher_cycle_def Let_def split: if_splits)
      next
        case (Inr current)
        have d: "distinct (map fst current)" by (rule scan_directory_distinct[OF Inr])
        from a True Some dp Inr
          emit_loop_eq[OF d, of settings "pjoin (nfs_incoming_dir settings) sn" sn dp now
                          "previous w" "prune_pending (pending w) current" "queue a" "telemetry a"]
        show ?thesis
          by (auto simp: watcher_cycle_def Let_def)
      qed
    qed
  qed
qed

lemma worker_iteration_queue:
  assumes "queue_consistent a" "worker_iteration settings io fmt a = Some (r, a', tr)"
  shows "queue_consistent a' \<and>
         queue_depth (telemetry a') = queue_depth (telemetry a) - 1 \<and>
         length (items (queue a)) = Suc (length (items (queue a')))"
proof -
  from assms(2) obtain item q1 where g: "queue_get (queue a) = Some (item, q1)"
    by (auto simp: worker_iteration_def split: option.splits)
  then have i: "items (queue a) = item # items q1"
    by (auto simp: queue_get_def split: list.splits)
  with assms(1) have u: "0 < unfinished_tasks (queue a)" by (simp add: queue_consistent_def)
  obtain t outcome where p: "process_item settings io item = (t, outcome)"
    by (cases "process_item settings io item")
  from worker_iteration_eq[OF g u p, of fmt] assms i show ?thesis
    by (cases outcome) (auto simp: queue_consistent_def split: if_splits)
qed

lemma step_queue:
  assumes "queue_consistent (sys_app s)" "step lib settings fmt ev s = Some s'"
  shows "queue_consistent (sys_app s') \<and>
         queue_depth (telemetry (sys_app s')) =
           queue_depth (telemetry (sys_app s)) + int (enqueued_by ev s s') - int (finished_by ev)"
proof (cases ev)
  case (EvRecover tree)
  obtain n a' where r: "recover settings tree (sys_app s) = (n, a')"
    by (cases "recover settings tree (sys_app s)")
  from recover_queue[OF r] assms r show ?thesis
    by (auto simp: EvRecover queue_consistent_def split: recover_outcome.splits)
next
  case (EvWatcher scandir now)
  show ?thesis
  proof (cases "watcher_cycle lib settings scandir now (sys_watcher s, sys_app s)")
    case (Inl e)
    with assms show ?thesis by (auto simp: EvWatcher)
  next
    case (Inr p)
    obtain w' a' where p: "p = (w', a')" by (cases p)
    from watcher_cycle_queue[OF Inr[unfolded p]] assms Inr p show ?thesis
      by (auto simp: EvWatcher queue_consistent_def)
  qed
next
  case (EvWorker io)
  from assms(2) obtain r a' tr where
    w: "worker_iteration settings io fmt (sys_app s) = Some (r, a', tr)" and s': "s' = s\<lparr>sys_app := a'\<rparr>"
    by (auto simp: EvWorker split: option.splits)
  from worker_iteration_queue[OF assms(1) w] s' show ?thesis
    by (simp add: EvWorker)
next
  case (EvStart io uuid today name_arg)
  with assms show ?thesis
    by (auto simp: queue_consistent_def split: prod.splits)
next
  case EvStop
  with assms show ?thesis
    by (auto simp: queue_consistent_def)
qed

lemma run_queue:
  "queue_consistent (sys_app s) \<Longrightarrow> run lib settings fmt evs s = Some s' \<Longrightarrow>
     queue_consistent (sys_app s') \<and>
     queue_depth (telemetry (sys_app s')) =
       queue_depth (telemetry (sys_app s)) + int (items_enqueued lib settings fmt evs s)
         - int (items_finished evs)"
proof (induction evs arbitrary: s)
  case Nil
  then show ?case by simp
next
  case (Cons ev evs)
  from Cons.prems(2) obtain s1 where st: "step lib settings fmt ev s = Some s1"
    and rn: "run lib settings fmt evs s1 = Some s'"
    by (auto split: option.splits)
  from step_queue[OF Cons.prems(1) st] have c1: "queue_consistent (sys_app s1)"
    and d1: "queue_depth (telemetry (sys_app s1)) =
           queue_depth (telemetry (sys_app s)) + int (enqueued_by ev s s1) - int (finished_by ev)"
    by simp_all
  from Cons.IH[OF c1 rn] d1 st show ?case by simp
qed

section \<open>The example run\<close>

lemmas ex_eval =
  ex_events_def ex_final_def
  recover_def scan_processing_def ex_tree_def less_eq_char_def less_char_def
  endswith_def ex_settings_def pjoin_def recovered_item_def session_key_def
  less_prod_def queue_put_def queue_full_def AppState_init_def Queue_init_def Telemetry_init_def
  SessionState_init_def System_init_def Watcher_init_def
  worker_iteration_def queue_get_def queue_task_done_def process_item_def Let_def
  ex_full_world_def ex_cancel_world_def ex_world_def ex_claimed_world_def ex_format_exc_def
  stop_session_def watch_start_def start_session_def
  watcher_cycle_def scan_directory_def allowed_extensions_of_def ex_scandir_def
  ex_entries_def scan_entries.simps ext_rejected_def path_suffix_def rfind_def
  ascii_lib_def ascii_lower_def ascii_lower_char_def prune_pending_def mk_item_def

lemma ex_run:
  "run ascii_lib ex_settings ex_format_exc ex_events System_init = Some ex_final"
  by (simp add: ex_eval)

lemma ex_enqueued:
  "items_enqueued ascii_lib ex_settings ex_format_exc ex_events System_init = 3"
  by (simp add: ex_eval)

lemma ex_finished: "items_finished ex_events = 2"
  by (simp add: ex_events_def)


lemma ex_last_step:
  "step ascii_lib ex_settings ex_format_exc (EvWorker ex_claimed_world) ex_final =
     Some (ex_final\<lparr>sys_app :=
        \<lparr>session_state =
           \<lparr>active = True, session_name = Some ''alpha'', date_prefix = Some ''20240102'',
            processed_ok = 1, processed_err = 1,
            last_error = Some ''a.bin: Traceback (most recent call last)''\<rparr>,
         queue = \<lparr>items = [], unfinished_tasks = 0\<rparr>,
         telemetry = \<lparr>queue_depth = 0, files_processed = 1, files_failed = 1\<rparr>\<rparr>\<rparr>)"
  by (simp add: ex_eval)

lemma ex_final_consistent: "queue_consistent (sys_app ex_final)"
  by (simp add: queue_consistent_def ex_final_def)

subsection \<open>The queue-depth gauge\<close>

text \<open>
  C9. Every event that enqueues items (a watcher cycle, recovery) raises the
  \<open>queue.depth\<close> gauge by the number of items it enqueued, and every completed worker
  iteration lowers it by one, whatever the outcome of the item. Hence in every state
  the service reaches between events the gauge equals the number of items enqueued
  minus the number of items finished, which is also the number of items still queued.
  A recovery that does not return has also raised the gauge by the number of items it
  put on the queue.
\<close>

theorem queue_depth_is_enqueued_minus_finished:
  "queue_consistent (sys_app System_init) \<and>
   (queue_consistent (sys_app s) \<and> step lib settings fmt ev s = Some s' \<longrightarrow>
      queue_depth (telemetry (sys_app s')) =
        queue_depth (telemetry (sys_app s)) + int (enqueued_by ev s s') - int (finished_by ev)) \<and>
   (\<forall>sys. run lib settings fmt evs System_init = Some sys \<longrightarrow>
      queue_depth (telemetry (sys_app sys)) =
        int (items_enqueued lib settings fmt evs System_init) - int (items_finished evs) \<and>
      queue_depth (telemetry (sys_app sys)) = int (length (items (queue (sys_app sys))))) \<and>
   (\<forall>r app'. recover settings tree app = (r, app') \<longrightarrow>
      length (items (queue app)) \<le> length (items (queue app')) \<and>
      queue_depth (telemetry app') =
        queue_depth (telemetry app) +
          int (length (items (queue app')) - length (items (queue app))))"
proof (intro conjI impI allI)
  show "length (items (queue app)) \<le> length (items (queue app'))"
    if "recover settings tree app = (r, app')" for r app'
    using recover_queue[OF that] by auto
  show "queue_depth (telemetry app') =
        queue_depth (telemetry app) +
          int (length (items (queue app')) - length (items (queue app)))"
    if "recover settings tree app = (r, app')" for r app'
    using recover_queue[OF that] by auto
  show i: "queue_consistent (sys_app System_init)"
    by (simp add: queue_consistent_def System_init_def AppState_init_def Queue_init_def
          Telemetry_init_def)
  show "queue_depth (telemetry (sys_app s')) =
        queue_depth (telemetry (sys_app s)) + int (enqueued_by ev s s') - int (finished_by ev)"
    if "queue_consistent (sys_app s) \<and> step lib settings fmt ev s = Some s'"
    using that step_queue[of s lib settings fmt ev s'] by simp
  fix sys
  assume r: "run lib settings fmt evs System_init = Some sys"
  have z: "queue_depth (telemetry (sys_app System_init)) = 0"
    by (simp add: System_init_def AppState_init_def Telemetry_init_def)
  from run_queue[OF i r] z
  show "queue_depth (telemetry (sys_app sys)) =
        int (items_enqueued lib settings fmt evs System_init) - int (items_finished evs)"
    by simp
  from run_queue[OF i r]
  show "queue_depth (telemetry (sys_app sys)) = int (length (items (queue (sys_app sys))))"
    by (simp add: queue_consistent_def)
qed

theorem queue_depth_witness:
  "run ascii_lib ex_settings ex_format_exc ex_events System_init = Some ex_final \<and>
   items_enqueued ascii_lib ex_settings ex_format_exc ex_events System_init = 3 \<and>
   items_finished ex_events = 2 \<and>
   queue_depth (telemetry (sys_app ex_final)) = 1 \<and>
   length (items (queue (sys_app ex_final))) = 1 \<and>
   queue_consistent (sys_app ex_final) \<and>
   (\<exists>s'. step ascii_lib ex_settings ex_format_exc (EvWorker ex_claimed_world) ex_final = Some s' \<and>
         enqueued_by (EvWorker ex_claimed_world) ex_final s' = 0 \<and>
         finished_by (EvWorker ex_claimed_world) = 1 \<and>
         queue_depth (telemetry (sys_app s')) = 0) \<and>
   (\<exists>app'. recover ex_small_queue ex_tree AppState_init = (Suspended, app') \<and>
           length (items (queue app')) = 1 \<and>
           queue_depth (telemetry app') = 1)"
proof -
  note T = queue_depth_is_enqueued_minus_finished
             [where lib = ascii_lib and settings = ex_settings and fmt = ex_format_exc
                and evs = ex_events and s = ex_final and ev = "EvWorker ex_claimed_world"]
  note R = queue_depth_is_enqueued_minus_finished
             [where settings = ex_small_queue and tree = ex_tree and app = AppState_init,
              THEN conjunct2, THEN conjunct2, THEN conjunct2]
  obtain app' where
    rs: "recover ex_small_queue ex_tree AppState_init = (Suspended, app')"
    and rl: "length (items (queue app')) = 1"
    by (simp add: recover_def scan_processing_def ex_tree_def less_eq_char_def less_char_def
          endswith_def ex_small_queue_def ex_settings_def pjoin_def recovered_item_def
          session_key_def less_prod_def queue_put_def queue_full_def AppState_init_def
          Queue_init_def Telemetry_init_def SessionState_init_def)
  from R rs have "queue_depth (telemetry app') =
      queue_depth (telemetry AppState_init) +
          int (length (items (queue app')) - length (items (queue AppState_init)))"
    by blast
  with rl have rq: "queue_depth (telemetry app') = 1"
    by (simp add: AppState_init_def Queue_init_def Telemetry_init_def)
  from rs rl rq have d: "\<exists>app'. recover ex_small_queue ex_tree AppState_init = (Suspended, app') \<and>
           length (items (queue app')) = 1 \<and>
           queue_depth (telemetry app') = 1"
    by blast
  from T[THEN conjunct2, THEN conjunct2, THEN conjunct1] ex_run
  have a: "queue_depth (telemetry (sys_app ex_final)) =
             int (items_enqueued ascii_lib ex_settings ex_format_exc ex_events System_init)
               - int (items_finished ex_events)"
    and b: "queue_depth (telemetry (sys_app ex_final)) =
             int (length (items (queue (sys_app ex_final))))"
    by blast+
  from a have a': "queue_depth (telemetry (sys_app ex_final)) = 1"
    by (simp add: ex_enqueued ex_finished)
  from b a' have b': "length (items (queue (sys_app ex_final))) = 1" by simp
  obtain s' where st: "step ascii_lib ex_settings ex_format_exc (EvWorker ex_claimed_world) ex_final = Some s'"
    using ex_last_step by blast
  from T[THEN conjunct2, THEN conjunct1, of s'] ex_final_consistent st a'
  have c: "queue_depth (telemetry (sys_app s')) = 0" by simp
  from ex_run ex_enqueued ex_finished a' b' ex_final_consistent st c d show ?thesis
    by simp
qed

text \<open>The session invariant at each operation and along the example run.\<close>

theorem session_invariant_witness:
  "session_invariant SessionState_init \<and>
   session_invariant ex_idle \<and>
   session_invariant
     (fst (snd (start_session ex_settings ex_world ''0190-uuid'' ''20240102'' None ex_idle))) \<and>
   active (fst (snd (start_session ex_settings ex_world ''0190-uuid'' ''20240102'' None ex_idle))) \<and>
   session_invariant ex_session \<and>
   session_invariant (stop_session ex_session) \<and>
   session_invariant (session_state AppState_init) \<and>
   session_invariant (session_state (snd (recover ex_settings ex_tree AppState_init))) \<and>
   active (session_state (snd (recover ex_settings ex_tree AppState_init))) \<and>
   session_invariant (session_state ex_queued_app) \<and>
   (\<exists>r app' tr.
      worker_iteration ex_settings ex_full_world ex_format_exc ex_queued_app = Some (r, app', tr) \<and>
      session_invariant (session_state app') \<and> active (session_state app')) \<and>
   run ascii_lib ex_settings ex_format_exc ex_events System_init = Some ex_final \<and>
   session_invariant (session_state (sys_app ex_final)) \<and>
   active (session_state (sys_app ex_final))"
proof -
  note T = session_invariant_preserved
  have i0: "session_invariant SessionState_init" by (rule T[THEN conjunct1])
  have i1: "session_invariant ex_idle"
    by (simp add: session_invariant_def ex_idle_def)
  have i2: "session_invariant ex_session"
    by (simp add: session_invariant_def ex_session_def)
  have i3: "session_invariant (session_state AppState_init)"
    using i0 by (simp add: AppState_init_def)
  have i4: "session_invariant (session_state ex_queued_app)"
    using i2 by (simp add: ex_queued_app_def)
  have a1: "session_invariant
     (fst (snd (start_session ex_settings ex_world ''0190-uuid'' ''20240102'' None ex_idle)))"
    using T[where s = ex_idle and settings = ex_settings and io = ex_world
              and uuid = "''0190-uuid''" and today = "''20240102''" and name_arg = None,
            THEN conjunct2, THEN conjunct1] i1 by blast
  have a2: "active (fst (snd (start_session ex_settings ex_world ''0190-uuid'' ''20240102'' None ex_idle)))"
    by (simp add: start_session_def ex_idle_def ex_world_def Let_def)
  have b: "session_invariant (stop_session ex_session)"
    using T[where s = ex_session, THEN conjunct2, THEN conjunct2, THEN conjunct1] i2 by blast
  have c1: "session_invariant (session_state (snd (recover ex_settings ex_tree AppState_init)))"
    using T[where app = AppState_init and settings = ex_settings and tree = ex_tree,
            THEN conjunct2, THEN conjunct2, THEN conjunct2, THEN conjunct1] i3 by blast
  have c2: "active (session_state (snd (recover ex_settings ex_tree AppState_init)))"
    by (simp add: ex_eval)
  obtain r app' tr where
    w: "worker_iteration ex_settings ex_full_world ex_format_exc ex_queued_app = Some (r, app', tr)"
    by (cases "worker_iteration ex_settings ex_full_world ex_format_exc ex_queued_app")
       (auto simp: worker_iteration_def queue_get_def ex_queued_app_def queue_task_done_def
             Let_def split: prod.splits option.splits if_splits)
  from worker_iteration_session[OF w] have d2: "active (session_state app')"
    by (simp add: ex_queued_app_def ex_session_def)
  have d1: "session_invariant (session_state app')"
    using T[where app = ex_queued_app and settings = ex_settings and io = ex_full_world
              and fmt = ex_format_exc,
            THEN conjunct2, THEN conjunct2, THEN conjunct2, THEN conjunct2, THEN conjunct1]
      i4 w by blast
  have e1: "session_invariant (session_state (sys_app ex_final))"
    using T[where lib = ascii_lib and settings = ex_settings and fmt = ex_format_exc
              and evs = ex_events,
            THEN conjunct2, THEN conjunct2, THEN conjunct2, THEN conjunct2, THEN conjunct2]
      ex_run by blast
  have e2: "active (session_state (sys_app ex_final))" by (simp add: ex_final_def)
  from i0 i1 a1 a2 i2 b i3 c1 c2 i4 w d1 d2 ex_run e1 e2 show ?thesis by blast
qed

end
